theory Spec2Isabelle
  imports Main "HOL-Library.Sublist"
begin

section \<open>Python strings\<close>

text \<open>
  Python 2 byte strings are modelled as \<open>string\<close> (a list of characters).
  \<open>str.lower\<close> and \<open>str.upper\<close> change the ASCII letters only.
\<close>

definition ascii_lower :: "char \<Rightarrow> char" where
  "ascii_lower c =
     (case map_of (zip ''ABCDEFGHIJKLMNOPQRSTUVWXYZ'' ''abcdefghijklmnopqrstuvwxyz'') c of
        Some l \<Rightarrow> l | None \<Rightarrow> c)"

definition ascii_upper :: "char \<Rightarrow> char" where
  "ascii_upper c =
     (case map_of (zip ''abcdefghijklmnopqrstuvwxyz'' ''ABCDEFGHIJKLMNOPQRSTUVWXYZ'') c of
        Some u \<Rightarrow> u | None \<Rightarrow> c)"

definition py_lower :: "string \<Rightarrow> string" where
  "py_lower s = map ascii_lower s"

definition py_upper :: "string \<Rightarrow> string" where
  "py_upper s = map ascii_upper s"

text \<open>\<open>s.startswith(p)\<close>\<close>

definition startswith :: "string \<Rightarrow> string \<Rightarrow> bool" where
  "startswith s p = prefix p s"

text \<open>Iterating over a file yields its lines, each with its terminating newline.\<close>

definition NL :: char where
  "NL = CHR 0x0A"

fun file_lines :: "string \<Rightarrow> string list" where
  "file_lines [] = []"
| "file_lines (c # cs) =
     (if c = NL then [c] # file_lines cs
      else (case file_lines cs of [] \<Rightarrow> [[c]] | l # ls \<Rightarrow> (c # l) # ls))"

text \<open>\<open>s.strip()\<close> removes leading and trailing whitespace.\<close>

definition py_isspace :: "char \<Rightarrow> bool" where
  "py_isspace c = (c \<in> set [CHR '' '', CHR 0x09, CHR 0x0A, CHR 0x0B, CHR 0x0C, CHR 0x0D])"

definition py_strip :: "string \<Rightarrow> string" where
  "py_strip s = rev (dropWhile py_isspace (rev (dropWhile py_isspace s)))"

text \<open>\<open>s.split(" ", 1)\<close>: one piece when there is no space, otherwise two.\<close>

definition py_split1 :: "string \<Rightarrow> string list" where
  "py_split1 s =
     (case dropWhile (\<lambda>c. c \<noteq> CHR '' '') s of
        [] \<Rightarrow> [s]
      | _ # r \<Rightarrow> [takeWhile (\<lambda>c. c \<noteq> CHR '' '') s, r])"

definition is_digit :: "char \<Rightarrow> bool" where
  "is_digit c = (c \<in> set ''0123456789'')"

text \<open>\<open>os.path.join(a, b)\<close> of \<open>posixpath\<close>.\<close>

definition os_path_join :: "string \<Rightarrow> string \<Rightarrow> string" where
  "os_path_join a b =
     (if startswith b ''/'' then b
      else if a = [] \<or> last a = CHR ''/'' then a @ b
      else a @ ''/'' @ b)"

text \<open>\<open>os.path.dirname\<close> and \<open>os.path.basename\<close> of \<open>posixpath\<close>.\<close>

definition os_path_basename :: "string \<Rightarrow> string" where
  "os_path_basename p = rev (takeWhile (\<lambda>c. c \<noteq> CHR ''/'') (rev p))"

definition os_path_dirname :: "string \<Rightarrow> string" where
  "os_path_dirname p =
     (let h = rev (dropWhile (\<lambda>c. c \<noteq> CHR ''/'') (rev p))
      in if h \<noteq> [] \<and> h \<noteq> replicate (length h) (CHR ''/'')
         then rev (dropWhile (\<lambda>c. c = CHR ''/'') (rev h)) else h)"

text \<open>Truth value of an optional string: \<open>None\<close> and the empty string are false.\<close>

fun truthy :: "string option \<Rightarrow> bool" where
  "truthy None = False"
| "truthy (Some s) = (s \<noteq> [])"

text \<open>
  The exceptions of the program; \<open>OSError\<close> carries the name of its error number,
  \<open>ShutilError\<close> is \<open>shutil.Error\<close>. \<open>NoneBranchName\<close> is not an exception: it
  marks a run that hands \<open>None\<close> to the repository where a branch name is expected.
\<close>

datatype error =
    GitModifierError
  | GbpError string
  | GitRepositoryError
  | CommandExecFailed
  | IndexError
  | IOError
  | OSError string
  | ShutilError
  | NoneBranchName

text \<open>\<open>xs[i]\<close> for \<open>i \<ge> 0\<close>.\<close>

definition py_index :: "'a list \<Rightarrow> nat \<Rightarrow> error + 'a" where
  "py_index xs i = (if i < length xs then Inr (xs ! i) else Inl IndexError)"

section \<open>gbp/scripts/pq.py: branch naming\<close>

definition PQ_BRANCH_PREFIX :: string where
  "PQ_BRANCH_PREFIX = ''patch-queue/''"

definition PATCH_DIR :: string where
  "PATCH_DIR = ''debian/patches/''"

definition is_pq_branch :: "string \<Rightarrow> bool" where
  "is_pq_branch branch = startswith branch PQ_BRANCH_PREFIX"

text \<open>
  \<open>pq_branch_name\<close> has no \<open>return\<close> on a patch-queue branch: Python returns
  \<open>None\<close> there, as the function's doctest shows.
\<close>

definition pq_branch_name :: "string \<Rightarrow> string option" where
  "pq_branch_name branch =
     (if \<not> is_pq_branch branch then Some (PQ_BRANCH_PREFIX @ branch) else None)"

definition pq_branch_base :: "string \<Rightarrow> string option" where
  "pq_branch_base pq_branch =
     (if is_pq_branch pq_branch then Some (drop (length PQ_BRANCH_PREFIX) pq_branch)
      else None)"

section \<open>gbp/git/modifier.py\<close>

record GitModifier =
  name :: "string option"
  email :: "string option"
  date :: "string option"

text \<open>
  \<open>_get_env\<close>: the dictionary is built by up to three assignments, in the order name,
  email, date.
\<close>

definition get_env :: "GitModifier \<Rightarrow> string \<Rightarrow> error + (string \<rightharpoonup> string)" where
  "get_env self who0 =
     (let who = py_upper who0 in
      if who \<notin> set [''AUTHOR'', ''COMMITTER''] then Inl GitModifierError
      else
        let extra_env = Map.empty;
            extra_env = (if truthy (name self)
                         then extra_env(''GIT_'' @ who @ ''_NAME'' \<mapsto> the (name self))
                         else extra_env);
            extra_env = (if truthy (email self)
                         then extra_env(''GIT_'' @ who @ ''_EMAIL'' \<mapsto> the (email self))
                         else extra_env);
            extra_env = (if truthy (date self)
                         then extra_env(''GIT_'' @ who @ ''_DATE'' \<mapsto> the (date self))
                         else extra_env)
        in Inr extra_env)"

definition get_author_env :: "GitModifier \<Rightarrow> error + (string \<rightharpoonup> string)" where
  "get_author_env self = get_env self ''author''"

definition get_committer_env :: "GitModifier \<Rightarrow> error + (string \<rightharpoonup> string)" where
  "get_committer_env self = get_env self ''committer''"

section \<open>gbp/scripts/pq.py: write_patch\<close>

text \<open>
  The file system, as far as \<open>write_patch\<close> touches it: what is at a path, a regular
  file with its content or a directory. Paths are relative to the working directory,
  which exists, or absolute; the root exists. A path is looked up as it is spelled, up
  to trailing slashes: symbolic links, permissions and the components \<^verbatim>\<open>.\<close> and
  \<^verbatim>\<open>..\<close> are not modelled.
\<close>

datatype node = File string | Dir

type_synonym filesystem = "string \<Rightarrow> node option"

definition rstrip_slash :: "string \<Rightarrow> string" where
  "rstrip_slash p = rev (dropWhile (\<lambda>c. c = CHR ''/'') (rev p))"

definition path_key :: "string \<Rightarrow> string" where
  "path_key p = (if p \<noteq> [] \<and> rstrip_slash p = [] then ''/'' else rstrip_slash p)"

definition os_path_isdir :: "filesystem \<Rightarrow> string \<Rightarrow> bool" where
  "os_path_isdir fs p = (p \<noteq> [] \<and> (path_key p = ''/'' \<or> fs (path_key p) = Some Dir))"

definition os_path_exists :: "filesystem \<Rightarrow> string \<Rightarrow> bool" where
  "os_path_exists fs p =
     (p \<noteq> [] \<and>
      (path_key p = ''/'' \<or>
       (case fs (path_key p) of
          None \<Rightarrow> False
        | Some Dir \<Rightarrow> True
        | Some (File c) \<Rightarrow> last p \<noteq> CHR ''/'')))"

text \<open>Whether the directory that is to hold the entry \<open>p\<close> exists.\<close>

definition parent_is_dir :: "filesystem \<Rightarrow> string \<Rightarrow> bool" where
  "parent_is_dir fs p =
     (os_path_dirname (path_key p) = [] \<or> os_path_isdir fs (os_path_dirname (path_key p)))"

text \<open>\<open>file(p, 'r')\<close> and reading it; \<open>file(p, 'w')\<close>, which creates or empties it.\<close>

definition open_read :: "filesystem \<Rightarrow> string \<Rightarrow> error + string" where
  "open_read fs p =
     (if p = [] \<or> last p = CHR ''/'' then Inl IOError
      else (case fs p of Some (File c) \<Rightarrow> Inr c | _ \<Rightarrow> Inl IOError))"

definition open_write :: "filesystem \<Rightarrow> string \<Rightarrow> error option \<times> filesystem" where
  "open_write fs p =
     (if p = [] \<or> last p = CHR ''/'' then (Some IOError, fs)
      else (case fs p of
              Some Dir \<Rightarrow> (Some IOError, fs)
            | Some (File c) \<Rightarrow> (None, fs(p \<mapsto> File []))
            | None \<Rightarrow> if parent_is_dir fs p then (None, fs(p \<mapsto> File []))
                      else (Some IOError, fs)))"

text \<open>\<open>os.mkdir(p)\<close>\<close>

definition os_mkdir :: "filesystem \<Rightarrow> string \<Rightarrow> error option \<times> filesystem" where
  "os_mkdir fs p =
     (if p = [] then (Some (OSError ''ENOENT''), fs)
      else if path_key p = ''/'' \<or> fs (path_key p) \<noteq> None then (Some (OSError ''EEXIST''), fs)
      else if parent_is_dir fs p then (None, fs(path_key p \<mapsto> Dir))
      else (case fs (os_path_dirname (path_key p)) of
              Some (File c) \<Rightarrow> (Some (OSError ''ENOTDIR''), fs)
            | _ \<Rightarrow> (Some (OSError ''ENOENT''), fs)))"

text \<open>
  \<open>os.makedirs(name)\<close>, with \<open>nm\<close> for \<open>name\<close>. \<open>makedirs_parts\<close> is its \<open>head, tail\<close> after
  \<open>path.split\<close>, taken a second time when the tail is empty. The call for the head is
  made when the head does not exist; an error of that call other than \<^verbatim>\<open>EEXIST\<close> is
  raised again.
\<close>

definition makedirs_parts :: "string \<Rightarrow> string \<times> string" where
  "makedirs_parts nm =
     (if os_path_basename nm = []
      then (os_path_dirname (os_path_dirname nm), os_path_basename (os_path_dirname nm))
      else (os_path_dirname nm, os_path_basename nm))"

function os_makedirs :: "filesystem \<Rightarrow> string \<Rightarrow> error option \<times> filesystem" where
  "os_makedirs fs nm =
     (if fst (makedirs_parts nm) \<noteq> [] \<and> snd (makedirs_parts nm) \<noteq> [] \<and>
         \<not> os_path_exists fs (fst (makedirs_parts nm))
      then (case os_makedirs fs (fst (makedirs_parts nm)) of
              (Some e, fs') \<Rightarrow>
                if e \<noteq> OSError ''EEXIST'' then (Some e, fs')
                else if snd (makedirs_parts nm) = ''.'' then (None, fs')
                else os_mkdir fs' nm
            | (None, fs') \<Rightarrow>
                if snd (makedirs_parts nm) = ''.'' then (None, fs')
                else os_mkdir fs' nm)
      else os_mkdir fs nm)"
  by pat_completeness auto

termination os_makedirs
proof (relation "measure (\<lambda>(fs, nm). length nm)")
  show "wf (measure (\<lambda>(fs, nm). length nm))" by simp
next
  fix fs :: filesystem and nm :: string
  assume a: "fst (makedirs_parts nm) \<noteq> [] \<and> snd (makedirs_parts nm) \<noteq> [] \<and>
             \<not> os_path_exists fs (fst (makedirs_parts nm))"
  have split: "length (os_path_dirname p) + length (os_path_basename p) \<le> length p" for p
  proof -
    define h where "h = rev (dropWhile (\<lambda>c. c \<noteq> CHR ''/'') (rev p))"
    have "length (takeWhile (\<lambda>c. c \<noteq> CHR ''/'') (rev p)) +
          length (dropWhile (\<lambda>c. c \<noteq> CHR ''/'') (rev p)) = length (rev p)"
      by (simp only: length_append [symmetric] takeWhile_dropWhile_id)
    then have l1: "length h + length (os_path_basename p) = length p"
      by (simp add: h_def os_path_basename_def)
    have "length (rev (dropWhile (\<lambda>c. c = CHR ''/'') (rev h))) \<le> length h"
      using length_dropWhile_le [of "\<lambda>c. c = CHR ''/''" "rev h"] by simp
    then have l2: "length (os_path_dirname p) \<le> length h"
      unfolding os_path_dirname_def h_def [symmetric] Let_def by (simp split: if_splits)
    from l1 l2 show ?thesis by simp
  qed
  have shorter: "length (os_path_dirname p) < length p" if "os_path_basename p \<noteq> []" for p
  proof -
    from that have "0 < length (os_path_basename p)" by simp
    with split [of p] show ?thesis by linarith
  qed
  have le: "length (os_path_dirname p) \<le> length p" for p
    using split [of p] by linarith
  have "length (fst (makedirs_parts nm)) < length nm"
  proof (cases "os_path_basename nm = []")
    case False
    then show ?thesis using shorter [OF False] by (simp add: makedirs_parts_def)
  next
    case True
    with a have n: "os_path_basename (os_path_dirname nm) \<noteq> []" by (simp add: makedirs_parts_def)
    from shorter [OF n] le [of nm]
    have "length (os_path_dirname (os_path_dirname nm)) < length nm" by linarith
    with True show ?thesis by (simp add: makedirs_parts_def)
  qed
  then show "((fs, fst (makedirs_parts nm)), fs, nm) \<in> measure (\<lambda>(fs, nm). length nm)" by simp
qed

declare os_makedirs.simps [simp del]

text \<open>\<open>os.unlink(p)\<close>\<close>

definition os_unlink :: "filesystem \<Rightarrow> string \<Rightarrow> error option \<times> filesystem" where
  "os_unlink fs p =
     (if p = [] then (Some (OSError ''ENOENT''), fs)
      else if path_key p = ''/'' then (Some (OSError ''EISDIR''), fs)
      else (case fs (path_key p) of
              None \<Rightarrow> (Some (OSError ''ENOENT''), fs)
            | Some Dir \<Rightarrow> (Some (OSError ''EISDIR''), fs)
            | Some (File c) \<Rightarrow>
                if last p = CHR ''/'' then (Some (OSError ''ENOTDIR''), fs)
                else (None, fs(p := None))))"

text \<open>
  \<open>shutil.move(src, dst)\<close>. When \<open>dst\<close> is a directory the file goes into it under
  its own base name, and \<open>shutil.Error\<close> is raised when that path exists. Otherwise the
  file is renamed to \<open>dst\<close>, replacing a regular file there; when the rename is refused
  (no file \<open>src\<close>, or no directory to hold \<open>dst\<close>) the copy that is tried instead raises
  \<open>IOError\<close>. Moving a directory is not modelled: \<open>write_patch\<close> moves the regular file
  it has just written.
\<close>

definition shutil_move :: "filesystem \<Rightarrow> string \<Rightarrow> string \<Rightarrow> error option \<times> filesystem" where
  "shutil_move fs src dst =
     (let real_dst =
            (if os_path_isdir fs dst then os_path_join dst (os_path_basename (rstrip_slash src))
             else dst)
      in if os_path_isdir fs dst \<and> os_path_exists fs real_dst then (Some ShutilError, fs)
         else (case fs src of
                 Some (File c) \<Rightarrow>
                   if real_dst = [] \<or> last real_dst = CHR ''/'' \<or> \<not> parent_is_dir fs real_dst
                   then (Some IOError, fs)
                   else (None, (fs(src := None))(real_dst \<mapsto> File c))
               | _ \<Rightarrow> (Some IOError, fs)))"

text \<open>
  The loop over the lines that follow the first one. \<open>topic\<close> is the variable of that
  name, \<open>written\<close> what has been written to the temporary file so far.
\<close>

fun topic_loop :: "string list \<Rightarrow> string option \<Rightarrow> string \<Rightarrow> error + (string option \<times> string)" where
  "topic_loop [] topic written = Inr (topic, written)"
| "topic_loop (line # rest) topic written =
     (if startswith (py_lower line) ''gbp-pq-topic: '' then
        (case py_index (py_split1 line) 1 of
           Inl e \<Rightarrow> Inl e
         | Inr v \<Rightarrow> topic_loop rest (Some (py_strip v)) written)
      else topic_loop rest topic (written @ line))"

text \<open>
  \<open>re.compile("[0-9]+-(?P<name>.+)").match(oldname)\<close>, giving the group \<open>name\<close>.
  The match starts at the first character and need not reach the end. The digits matched
  are the whole leading run of digits, since the next character has to be a hyphen; the
  group is greedy and \<open>.\<close> matches every character but a newline, so the group is what
  follows the hyphen up to the first newline, and it has to be non-empty.
\<close>

definition patch_re_match :: "string \<Rightarrow> string option" where
  "patch_re_match oldname =
     (if takeWhile is_digit oldname = [] then None
      else (case dropWhile is_digit oldname of
              [] \<Rightarrow> None
            | c # r \<Rightarrow>
                if c = CHR ''-'' \<and> takeWhile (\<lambda>x. x \<noteq> NL) r \<noteq> []
                then Some (takeWhile (\<lambda>x. x \<noteq> NL) r) else None))"

definition dest_name :: "bool \<Rightarrow> string \<Rightarrow> string" where
  "dest_name patch_numbers oldname =
     (if \<not> patch_numbers then
        (case patch_re_match oldname of Some n \<Rightarrow> n | None \<Rightarrow> oldname)
      else oldname)"

definition topic_dir :: "string option \<Rightarrow> string" where
  "topic_dir topic =
     (if truthy topic then os_path_join PATCH_DIR (the topic) else PATCH_DIR)"

text \<open>
  \<open>write_patch(patch, options)\<close>, with \<open>options.patch_numbers\<close> as a Boolean. The result
  is the returned destination name or the exception raised, and the file system
  afterwards. The temporary file has its content when it is closed.
\<close>

definition write_patch :: "filesystem \<Rightarrow> string \<Rightarrow> bool \<Rightarrow> (error + string) \<times> filesystem" where
  "write_patch fs patch patch_numbers =
     (let oldname = drop (length PATCH_DIR) patch;
          newname = oldname;
          tmpname = patch @ ''.gbp''
      in case open_read fs patch of
           Inl e \<Rightarrow> (Inl e, fs)
         | Inr old \<Rightarrow>
             (case open_write fs tmpname of
                (Some e, fs0) \<Rightarrow> (Inl e, fs0)
              | (None, fs0) \<Rightarrow>
                  (case topic_loop (tl (file_lines old)) None [] of
                     Inl e \<Rightarrow> (Inl e, fs0)
                   | Inr (topic, written) \<Rightarrow>
                       (let fs1 = fs0(tmpname \<mapsto> File written);
                            newname = dest_name patch_numbers oldname;
                            topicdir = topic_dir topic
                        in case (if \<not> os_path_isdir fs1 topicdir
                                 then os_makedirs fs1 topicdir else (None, fs1)) of
                             (Some e, fs2) \<Rightarrow> (Inl e, fs2)
                           | (None, fs2) \<Rightarrow>
                               (case os_unlink fs2 patch of
                                  (Some e, fs3) \<Rightarrow> (Inl e, fs3)
                                | (None, fs3) \<Rightarrow>
                                    (let dstname = os_path_join topicdir newname
                                     in case shutil_move fs3 tmpname dstname of
                                          (Some e, fs4) \<Rightarrow> (Inl e, fs4)
                                        | (None, fs4) \<Rightarrow> (Inr dstname, fs4)))))))"



text \<open>
  A working tree that holds the patches directory and, at \<open>patch\<close>, one file: the file
  system of the examples for \<open>write_patch\<close>.
\<close>

definition patches_fs :: "string \<Rightarrow> string \<Rightarrow> filesystem" where
  "patches_fs patch content =
     [''debian'' \<mapsto> Dir, ''debian/patches'' \<mapsto> Dir, patch \<mapsto> File content]"

section \<open>gbp/scripts/pq.py: get_maintainer_from_control\<close>

text \<open>
  The shell command \<^verbatim>\<open>sed -n -e "s/Maintainer: \+\(.*\)/\1/p" debian/control\<close>.
  On a line, the leftmost place where \<^verbatim>\<open>Maintainer:\<close> and at least one space stand is
  replaced, together with the rest of the line, by what follows the spaces; a line with
  no such place is not printed.
\<close>

fun sed_subst :: "string \<Rightarrow> string option" where
  "sed_subst [] = None"
| "sed_subst (c # cs) =
     (if startswith (c # cs) ''Maintainer: ''
      then Some (dropWhile (\<lambda>x. x = CHR '' '') (drop (length ''Maintainer: '') (c # cs)))
      else map_option ((#) c) (sed_subst cs))"

definition sed_maintainer :: "string \<Rightarrow> string list" where
  "sed_maintainer control =
     List.map_filter
       (\<lambda>l. let has_nl = (l \<noteq> [] \<and> last l = NL);
                body = (if has_nl then butlast l else l)
            in map_option (\<lambda>r. if has_nl then r @ [NL] else r) (sed_subst body))
       (file_lines control)"

text \<open>
  \<open>re.match('(?P<name>.*[^ ]) *<(?P<email>.*)>', maintainer)\<close>. \<open>match_email\<close> matches
  \<^verbatim>\<open> *<(?P<email>.*)>\<close> at the start of its argument: the spaces, the bracket, and the
  group up to the last closing bracket before a newline. \<open>match_name s n\<close> tries the
  ends of the group \<open>name\<close> from the \<open>n\<close>-th character downwards, as the greedy
  \<^verbatim>\<open>.*\<close> backtracks: the group ends with a character that is not a space and has no
  newline before it.
\<close>

definition match_email :: "string \<Rightarrow> string option" where
  "match_email t =
     (case dropWhile (\<lambda>c. c = CHR '' '') t of
        [] \<Rightarrow> None
      | c # r \<Rightarrow>
          if c = CHR ''<'' then
            (let line = takeWhile (\<lambda>x. x \<noteq> NL) r
             in if CHR ''>'' \<in> set line
                then Some (rev (tl (dropWhile (\<lambda>x. x \<noteq> CHR ''>'') (rev line))))
                else None)
          else None)"

fun match_name :: "string \<Rightarrow> nat \<Rightarrow> (string \<times> string) option" where
  "match_name s 0 = None"
| "match_name s (Suc n) =
     (if NL \<notin> set (take n s) \<and> s ! n \<noteq> CHR '' '' then
        (case match_email (drop (Suc n) s) of
           Some e \<Rightarrow> Some (take (Suc n) s, e)
         | None \<Rightarrow> match_name s n)
      else match_name s n)"

definition maintainer_re_match :: "string \<Rightarrow> (string \<times> string) option" where
  "maintainer_re_match maintainer = match_name maintainer (length maintainer)"

text \<open>
  \<open>get_maintainer_from_control()\<close>. The argument is the content of \<^verbatim>\<open>debian/control\<close>
  in the working directory, \<open>None\<close> when there is no such file (\<^verbatim>\<open>sed\<close> then prints
  nothing on its standard output).
\<close>

definition get_maintainer_from_control :: "string option \<Rightarrow> error + (string option \<times> string option)" where
  "get_maintainer_from_control control =
     (case py_index (case control of None \<Rightarrow> [] | Some c \<Rightarrow> sed_maintainer c) 0 of
        Inl e \<Rightarrow> Inl e
      | Inr l \<Rightarrow>
          (case maintainer_re_match (py_strip l) of
             Some (n, e) \<Rightarrow> Inr (Some n, Some e)
           | None \<Rightarrow> Inr (None, None)))"

section \<open>The repository and the patch series\<close>

text \<open>
  Modelled from the spec: the classes \<open>Patch\<close>, \<open>PatchSeries\<close> and \<open>GitRepository\<close>
  and the command wrappers are not in the sources at hand. A patch is the entry of
  section 3 of the specification; the repository is the collaborator of section 6, with
  the calls the import makes.
\<close>

record Patch =
  path :: string
  author :: "string option"
  email :: "string option"
  date :: "string option"
  subject :: string
  long_desc :: string
  topic :: "string option"

text \<open>
  A commit is a root of the history or has a first parent, a message, an author (name,
  email, date) and the tree that the patch at the given path made of the parent's.
\<close>

datatype commit =
    Root string
  | Commit commit string "string option \<times> string option \<times> string option" string

fun first_parent_walk :: "commit \<Rightarrow> commit list" where
  "first_parent_walk (Root i) = [Root i]"
| "first_parent_walk (Commit p m a t) = Commit p m a t # first_parent_walk p"

datatype call =
    Checkout string
  | SetBranch string
  | CreateBranch string commit
  | DeleteBranch string
  | ApplyPatch string
  | CopyTree string string
  | RmTree string

text \<open>
  The state: the branches with their tips, the branch checked out, the temporary
  directories below \<^verbatim>\<open>.git/\<close>, and the calls made so far, oldest first.
\<close>

record repo =
  branches :: "string \<rightharpoonup> commit"
  current :: string
  tmpdirs :: "string list"
  calls :: "call list"

text \<open>
  What the world answers: whether \<^verbatim>\<open>git branch\<close> and \<^verbatim>\<open>git apply\<close> succeed, the
  content of \<^verbatim>\<open>debian/control\<close> in the working tree of a commit, the patches a series
  file lists, and the random part of the name \<open>tempfile.mkdtemp\<close> chooses.
\<close>

record env =
  create_branch_ok :: "string \<Rightarrow> commit \<Rightarrow> bool"
  apply_patch_ok :: "commit option \<Rightarrow> string \<Rightarrow> bool"
  control_file :: "commit option \<Rightarrow> string option"
  read_series_file :: "string \<Rightarrow> Patch list"
  mkdtemp_random :: string

definition head :: "repo \<Rightarrow> commit option" where
  "head r = branches r (current r)"

definition has_branch :: "repo \<Rightarrow> string \<Rightarrow> bool" where
  "has_branch r b = (branches r b \<noteq> None)"

definition checkout :: "string \<Rightarrow> repo \<Rightarrow> repo" where
  "checkout b r = r\<lparr>current := b, calls := calls r @ [Checkout b]\<rparr>"

definition set_branch :: "string \<Rightarrow> repo \<Rightarrow> repo" where
  "set_branch b r = r\<lparr>current := b, calls := calls r @ [SetBranch b]\<rparr>"

definition create_branch :: "env \<Rightarrow> string \<Rightarrow> commit \<Rightarrow> repo \<Rightarrow> error option \<times> repo" where
  "create_branch E b c r =
     (if create_branch_ok E b c
      then (None, r\<lparr>branches := (branches r)(b \<mapsto> c), calls := calls r @ [CreateBranch b c]\<rparr>)
      else (Some CommandExecFailed, r\<lparr>calls := calls r @ [CreateBranch b c]\<rparr>))"

definition delete_branch :: "string \<Rightarrow> repo \<Rightarrow> repo" where
  "delete_branch b r = r\<lparr>branches := (branches r)(b := None), calls := calls r @ [DeleteBranch b]\<rparr>"

text \<open>
  Modelled from the spec: \<open>get_commits\<close> with the option \<^verbatim>\<open>-<tries>\<close> and
  \<open>first_parent=True\<close> is the first-parent commit enumeration bounded by count of section
  6, most recent first, from the commit checked out.
\<close>

definition get_commits :: "repo \<Rightarrow> int \<Rightarrow> commit list" where
  "get_commits r tries =
     take (nat tries) (case head r of None \<Rightarrow> [] | Some c \<Rightarrow> first_parent_walk c)"

definition SERIES_FILE :: string where
  "SERIES_FILE = os_path_join PATCH_DIR ''series''"

section \<open>gbp/scripts/pq.py: the import\<close>

text \<open>\<open>safe_patches(series)\<close>: the temporary directory, the new series path, the state.\<close>

definition safe_patches :: "env \<Rightarrow> string \<Rightarrow> repo \<Rightarrow> string \<times> string \<times> repo" where
  "safe_patches E series r =
     (let src = os_path_dirname series;
          name = os_path_basename series;
          tmpdir = os_path_join ''.git/'' (''gbp-pq'' @ mkdtemp_random E);
          patches = os_path_join tmpdir ''patches'';
          series' = os_path_join patches name
      in (tmpdir, series',
          r\<lparr>tmpdirs := tmpdir # tmpdirs r, calls := calls r @ [CopyTree src patches]\<rparr>))"

definition rmtree :: "string \<Rightarrow> repo \<Rightarrow> repo" where
  "rmtree d r = r\<lparr>tmpdirs := removeAll d (tmpdirs r), calls := calls r @ [RmTree d]\<rparr>"

text \<open>The commit message \<open>apply_and_commit_patch\<close> composes.\<close>

definition commit_message :: "Patch \<Rightarrow> string option \<Rightarrow> string" where
  "commit_message patch topic' =
     (let msg = subject patch @ [NL, NL] @ long_desc patch
      in if truthy topic' then msg @ [NL] @ ''Gbp-Pq-Topic: '' @ the topic' else msg)"

text \<open>
  The first part of \<open>apply_and_commit_patch\<close>: the dictionary \<open>author\<close> (name, email,
  date), with the maintainer of the control file in the working tree (that of the commit
  checked out) when the patch lacks author or email.
\<close>

definition resolve_author :: "env \<Rightarrow> commit option \<Rightarrow> Patch \<Rightarrow> error + (string option \<times> string option \<times> string option)" where
  "resolve_author E h patch =
     (if \<not> (truthy (author patch) \<and> truthy (email patch)) then
        (case get_maintainer_from_control (control_file E h) of
           Inl e \<Rightarrow> Inl e
         | Inr (name', email') \<Rightarrow>
             if truthy name' then Inr (name', email', date patch)
             else Inr (author patch, email patch, date patch))
      else Inr (author patch, email patch, date patch))"

text \<open>
  \<open>apply_and_commit_patch(repo, patch, topic)\<close>. The result is the exception raised, if
  any, and the state. The new commit has the commit checked out as its only parent, and
  the branch checked out is moved to it.
\<close>

definition apply_and_commit_patch :: "env \<Rightarrow> Patch \<Rightarrow> string option \<Rightarrow> repo \<Rightarrow> error option \<times> repo" where
  "apply_and_commit_patch E patch topic' r =
     (case resolve_author E (head r) patch of
        Inl e \<Rightarrow> (Some e, r)
      | Inr author' \<Rightarrow>
          let r1 = r\<lparr>calls := calls r @ [ApplyPatch (path patch)]\<rparr> in
          if \<not> apply_patch_ok E (head r) (path patch) then (Some CommandExecFailed, r1)
          else
            let msg = commit_message patch topic'
            in (case head r1 of
                  None \<Rightarrow> (Some GitRepositoryError, r1)
                | Some h \<Rightarrow>
                    (None, r1\<lparr>branches := (branches r1)(current r1 \<mapsto> Commit h msg author' (path patch))\<rparr>)))"

text \<open>\<open>drop_pq(repo, branch)\<close>\<close>

definition drop_pq :: "repo \<Rightarrow> string \<Rightarrow> error option \<times> repo" where
  "drop_pq r branch =
     (if is_pq_branch branch then (Some (GbpError []), r)
      else (case pq_branch_name branch of
              None \<Rightarrow> (Some NoneBranchName, r)
            | Some pq_branch \<Rightarrow>
                if has_branch r pq_branch then (None, delete_branch pq_branch r)
                else (None, r)))"

text \<open>
  The loop over the patches of the queue, on the patch-queue branch just created. The
  exceptions \<open>GbpError\<close>, \<open>GitRepositoryError\<close> and \<open>CommandExecFailed\<close> are caught:
  the loop then switches back, deletes the branch and is left by \<open>break\<close>. Any other
  exception leaves the function.
\<close>

datatype loop_exit = Completed | Broke | Raised error

fun caught :: "error \<Rightarrow> bool" where
  "caught (GbpError m) = True"
| "caught GitRepositoryError = True"
| "caught CommandExecFailed = True"
| "caught e = False"

fun apply_queue :: "env \<Rightarrow> string \<Rightarrow> string \<Rightarrow> Patch list \<Rightarrow> repo \<Rightarrow> loop_exit \<times> repo" where
  "apply_queue E branch pq_branch [] r = (Completed, r)"
| "apply_queue E branch pq_branch (patch # queue) r =
     (case apply_and_commit_patch E patch (topic patch) r of
        (None, r') \<Rightarrow> apply_queue E branch pq_branch queue r'
      | (Some e, r') \<Rightarrow>
          if caught e then (Broke, delete_branch pq_branch (set_branch branch r'))
          else (Raised e, r'))"

text \<open>
  The loop over the commits. Its \<open>else\<close> branch, reached when no commit is left, raises
  the error that no commit took the patches.
\<close>

fun try_commits :: "env \<Rightarrow> string \<Rightarrow> string \<Rightarrow> Patch list \<Rightarrow> commit list \<Rightarrow> repo \<Rightarrow> error option \<times> repo" where
  "try_commits E branch pq_branch queue [] r = (Some (GbpError ''Couldn't apply patches''), r)"
| "try_commits E branch pq_branch queue (c # commits) r =
     (case create_branch E pq_branch c r of
        (Some e, r') \<Rightarrow>
          (if e = CommandExecFailed
           then (Some (GbpError (''Cannot create patch-queue branch '' @ [CHR 0x27] @ pq_branch @ [CHR 0x27] @ ''.'')), r')
           else (Some e, r'))
      | (None, r') \<Rightarrow>
          (case apply_queue E branch pq_branch queue (set_branch pq_branch r') of
             (Completed, r'') \<Rightarrow> (None, r'')
           | (Broke, r'') \<Rightarrow> try_commits E branch pq_branch queue commits r''
           | (Raised e, r'') \<Rightarrow> (Some e, r'')))"

text \<open>
  \<open>import_quilt_patches(repo, branch, series, tries, force)\<close>. The result is the
  exception raised, if any, and the state. \<open>branch0\<close> is the argument \<open>branch\<close>,
  which the function reassigns. With \<open>force\<close> on a branch whose base is itself named
  like a patch-queue branch, \<open>pq_branch\<close> is \<open>None\<close> and is handed to
  \<open>repo.has_branch\<close>; what the repository does with it is not in the sources, and
  the run ends there with \<open>NoneBranchName\<close>.
\<close>

definition import_quilt_patches :: "env \<Rightarrow> repo \<Rightarrow> string \<Rightarrow> string \<Rightarrow> int \<Rightarrow> bool \<Rightarrow> error option \<times> repo" where
  "import_quilt_patches E r branch0 series tries force =
     (let tmpdir = None;
          entered =
            (if is_pq_branch branch0 then
               (if force then
                  (case pq_branch_base branch0 of
                     None \<Rightarrow> Inl (NoneBranchName, r)
                   | Some branch \<Rightarrow> Inr (branch, pq_branch_name branch, checkout branch r))
                else Inl (GbpError [], r))
             else Inr (branch0, pq_branch_name branch0, r))
      in case entered of
           Inl (e, r') \<Rightarrow> (Some e, r')
         | Inr (branch, None, r1) \<Rightarrow> (Some NoneBranchName, r1)
         | Inr (branch, Some pq_branch, r1) \<Rightarrow>
             (let dropped =
                    (if has_branch r1 pq_branch then
                       (if force then drop_pq r1 branch
                        else (Some (GbpError (''Patch queue branch '' @ [CHR 0x27] @ pq_branch @ [CHR 0x27]
                                  @ ''. already exists. Try '' @ [CHR 0x27] @ ''rebase'' @ [CHR 0x27]
                                  @ '' instead.'')), r1))
                     else (None, r1))
              in case dropped of
                   (Some e, r2) \<Rightarrow> (Some e, r2)
                 | (None, r2) \<Rightarrow>
                     (let commits = get_commits r2 tries;
                          (tmpdir, series, r3) =
                             (if length commits > 1
                              then (let (t, s, r') = safe_patches E series r2 in (Some t, s, r'))
                              else (tmpdir, series, r2));
                          queue = read_series_file E series
                      in case try_commits E branch pq_branch queue commits r3 of
                           (Some e, r4) \<Rightarrow> (Some e, r4)
                         | (None, r4) \<Rightarrow>
                             if truthy tmpdir then (None, rmtree (the tmpdir) r4)
                             else (None, r4))))"

section \<open>The time machine as the specification words it\<close>

text \<open>
  The commit that a patch makes on top of \<open>h\<close>, as section 4.6 has it: the resolved
  identity, the composed message, \<open>h\<close> as sole parent.
\<close>

definition patched :: "env \<Rightarrow> commit \<Rightarrow> Patch \<Rightarrow> commit" where
  "patched E h p =
     Commit h (commit_message p (topic p))
       (case resolve_author E (Some h) p of
          Inr a \<Rightarrow> a | Inl e \<Rightarrow> (author p, email p, date p))
       (path p)"

text \<open>
  Section 4.5, step 4c of the specification: the patches are attempted in series order,
  up to the first that does not apply. The result is the attempts made and whether every
  patch applied.
\<close>

fun spec_apply_series :: "env \<Rightarrow> commit \<Rightarrow> Patch list \<Rightarrow> call list \<times> bool" where
  "spec_apply_series E h [] = ([], True)"
| "spec_apply_series E h (p # ps) =
     (if apply_patch_ok E (Some h) (path p)
      then (let (cs, ok) = spec_apply_series E (patched E h p) ps in (ApplyPatch (path p) # cs, ok))
      else ([ApplyPatch (path p)], False))"

text \<open>
  Section 4.5, steps 4 and 5: for each candidate in order, create the patch-queue branch
  there (a failure is fatal), switch to it, attempt the patches; on a failure switch back,
  delete the branch and go on with the next candidate; stop at the first candidate where
  all patches applied; with no candidate left, fail. The result is the calls made and the
  error, if any.
\<close>

fun spec_time_machine :: "env \<Rightarrow> string \<Rightarrow> string \<Rightarrow> Patch list \<Rightarrow> commit list \<Rightarrow> call list \<times> error option" where
  "spec_time_machine E branch pq_branch queue [] = ([], Some (GbpError ''Couldn't apply patches''))"
| "spec_time_machine E branch pq_branch queue (c # cs) =
     (if \<not> create_branch_ok E pq_branch c
      then ([CreateBranch pq_branch c],
            Some (GbpError (''Cannot create patch-queue branch '' @ [CHR 0x27] @ pq_branch @ [CHR 0x27] @ ''.'')))
      else (let (attempts, ok) = spec_apply_series E c queue
            in if ok then ([CreateBranch pq_branch c, SetBranch pq_branch] @ attempts, None)
               else (let (later, e) = spec_time_machine E branch pq_branch queue cs
                     in ([CreateBranch pq_branch c, SetBranch pq_branch] @ attempts
                           @ [SetBranch branch, DeleteBranch pq_branch] @ later, e))))"

section \<open>gbp/scripts/pq.py: main, the import action\<close>

text \<open>
  The \<open>except\<close> clauses of \<open>main\<close>: \<open>CommandExecFailed\<close> and \<open>GbpError\<close> are
  caught and make the return value 1; any other exception leaves \<open>main\<close>.
\<close>

fun main_except :: "error option \<times> repo \<Rightarrow> (error + int) \<times> repo" where
  "main_except (None, r) = (Inr 0, r)"
| "main_except (Some CommandExecFailed, r) = (Inr 1, r)"
| "main_except (Some (GbpError m), r) = (Inr 1, r)"
| "main_except (Some e, r) = (Inl e, r)"

text \<open>
  The branch of \<open>main\<close> taken for the action \<^verbatim>\<open>import\<close>, from
  \<open>current = repo.get_branch()\<close> on, with \<open>options.time_machine\<close> and
  \<open>options.force\<close> as arguments.
\<close>

definition main_import :: "env \<Rightarrow> repo \<Rightarrow> int \<Rightarrow> bool \<Rightarrow> (error + int) \<times> repo" where
  "main_import E r time_machine force =
     (let current' = current r;
          series = SERIES_FILE;
          tries = (if time_machine > 0 then time_machine else 1)
      in main_except (import_quilt_patches E r current' series tries force))"

section \<open>Branch naming: results\<close>

lemma is_pq_branch_prefixed: "is_pq_branch (PQ_BRANCH_PREFIX @ b)"
  by (simp add: is_pq_branch_def startswith_def)

text \<open>
  C3. For every branch name \<open>b\<close> that is not a patch-queue branch,
  \<open>pq_branch_name b\<close> is the prefixed name, \<open>pq_branch_base\<close> of that name is
  \<open>b\<close> again, and the prefixed name is a patch-queue branch.
\<close>

theorem pq_branch_roundtrip:
  assumes "\<not> is_pq_branch b"
  shows "\<exists>n. pq_branch_name b = Some n \<and> pq_branch_base n = Some b \<and> is_pq_branch n"
  using assms by (simp add: pq_branch_name_def pq_branch_base_def is_pq_branch_prefixed)

theorem pq_branch_roundtrip_witness:
  "\<not> is_pq_branch ''foo'' \<and>
   (\<exists>n. pq_branch_name ''foo'' = Some n \<and> pq_branch_base n = Some ''foo'' \<and> is_pq_branch n)"
proof -
  have h: "\<not> is_pq_branch ''foo''"
    by (simp add: is_pq_branch_def startswith_def PQ_BRANCH_PREFIX_def)
  show ?thesis using h pq_branch_roundtrip [OF h] by simp
qed

text \<open>
  C4, as stated, fails: on a name that already is a patch-queue branch
  \<open>pq_branch_name\<close> does not return the name, it returns \<open>None\<close>.
\<close>

theorem pq_branch_name_noop_counterexample:
  "is_pq_branch ''patch-queue/master'' \<and>
   pq_branch_name ''patch-queue/master'' \<noteq> Some ''patch-queue/master''"
  by (simp add: pq_branch_name_def is_pq_branch_def startswith_def PQ_BRANCH_PREFIX_def)

text \<open>
  C4, amended. On a patch-queue branch \<open>pq_branch_name\<close> returns no value
  (\<open>None\<close>); on every other name it returns the fixed prefix followed by the name.
\<close>

theorem pq_branch_name_cases:
  "(is_pq_branch b \<longrightarrow> pq_branch_name b = None) \<and>
   (\<not> is_pq_branch b \<longrightarrow> pq_branch_name b = Some (''patch-queue/'' @ b))"
  by (simp add: pq_branch_name_def PQ_BRANCH_PREFIX_def)

theorem pq_branch_name_cases_witness:
  "is_pq_branch ''patch-queue/master'' \<and> pq_branch_name ''patch-queue/master'' = None \<and>
   \<not> is_pq_branch ''foo'' \<and> pq_branch_name ''foo'' = Some ''patch-queue/foo''"
proof -
  have a: "is_pq_branch ''patch-queue/master''"
    by (simp add: is_pq_branch_def startswith_def PQ_BRANCH_PREFIX_def)
  have b: "\<not> is_pq_branch ''foo''"
    by (simp add: is_pq_branch_def startswith_def PQ_BRANCH_PREFIX_def)
  show ?thesis
    using a b pq_branch_name_cases [of "''patch-queue/master''"] pq_branch_name_cases [of "''foo''"]
    by simp
qed

section \<open>write_patch: results\<close>



























text \<open>
  The two cases in which the output is not at the name returned, on concrete trees.
  Without a topic and with the patch \<^verbatim>\<open>debian/patches/0001-t\<close>, when
  \<^verbatim>\<open>debian/patches/t\<close> is a directory: the name returned is that directory and the
  output is inside it, at \<^verbatim>\<open>debian/patches/t/0001-t.gbp\<close>. With the topic \<^verbatim>\<open>t\<close>,
  when \<^verbatim>\<open>debian/patches/t\<close> is a regular file: \<open>os.makedirs\<close> raises.
\<close>

lemma write_patch_into_directory:
  "fst (write_patch ((patches_fs ''debian/patches/0001-t'' (''From c'' @ [NL] @ ''x'' @ [NL]))
                       (''debian/patches/t'' \<mapsto> Dir))
        ''debian/patches/0001-t'' False) = Inr ''debian/patches/t'' \<and>
   snd (write_patch ((patches_fs ''debian/patches/0001-t'' (''From c'' @ [NL] @ ''x'' @ [NL]))
                       (''debian/patches/t'' \<mapsto> Dir))
        ''debian/patches/0001-t'' False) ''debian/patches/t'' = Some Dir \<and>
   snd (write_patch ((patches_fs ''debian/patches/0001-t'' (''From c'' @ [NL] @ ''x'' @ [NL]))
                       (''debian/patches/t'' \<mapsto> Dir))
        ''debian/patches/0001-t'' False) ''debian/patches/t/0001-t.gbp'' = Some (File (''x'' @ [NL]))"
  by code_simp

lemma write_patch_topic_is_file:
  "fst (write_patch ((patches_fs ''debian/patches/1-f''
                        (''From c'' @ [NL] @ ''Gbp-Pq-Topic: t'' @ [NL] @ ''x'' @ [NL]))
                       (''debian/patches/t'' \<mapsto> File []))
        ''debian/patches/1-f'' False) = Inl (OSError ''EEXIST'')"
  by code_simp


text \<open>
  C6, as stated, fails: the expression is matched without an anchor at the end, and the
  group stops at a newline. For the name \<^verbatim>\<open>1-a\<close>, newline, \<^verbatim>\<open>b\<close> the destination base
  name is \<^verbatim>\<open>a\<close>: neither the name unchanged nor the name without \<^verbatim>\<open>1-\<close>.
\<close>

theorem dest_name_unanchored_counterexample:
  "dest_name False (''1-a'' @ [NL] @ ''b'') = ''a'' \<and>
   dest_name False (''1-a'' @ [NL] @ ''b'') \<noteq> ''1-a'' @ [NL] @ ''b'' \<and>
   dest_name False (''1-a'' @ [NL] @ ''b'') \<noteq> ''a'' @ [NL] @ ''b''"
  by code_simp

lemma patch_re_match_decomp:
  assumes "ds \<noteq> []" "\<forall>c\<in>set ds. is_digit c" "rest \<noteq> []" "NL \<notin> set rest"
  shows "patch_re_match (ds @ ''-'' @ rest) = Some rest"
proof -
  have nd: "\<not> is_digit (CHR ''-'')" by (simp add: is_digit_def)
  have t: "takeWhile is_digit (ds @ CHR ''-'' # rest) = ds"
    using assms(2) nd by (simp add: takeWhile_append2)
  have d: "dropWhile is_digit (ds @ CHR ''-'' # rest) = CHR ''-'' # rest"
    using assms(2) nd by (simp add: dropWhile_append2)
  have r: "takeWhile (\<lambda>x. x \<noteq> NL) rest = rest"
    using assms(4) by (auto simp: takeWhile_eq_all_conv)
  show ?thesis using assms(1,3) by (simp add: patch_re_match_def t d r)
qed

lemma patch_re_match_Some:
  assumes "patch_re_match oldname = Some n"
  shows "\<exists>ds rest. ds \<noteq> [] \<and> (\<forall>c\<in>set ds. is_digit c) \<and> rest \<noteq> [] \<and>
           oldname = ds @ ''-'' @ rest \<and> n = takeWhile (\<lambda>x. x \<noteq> NL) rest"
proof -
  let ?ds = "takeWhile is_digit oldname"
  from assms obtain r where
    a: "?ds \<noteq> []" and b: "dropWhile is_digit oldname = CHR ''-'' # r"
    and c: "takeWhile (\<lambda>x. x \<noteq> NL) r \<noteq> []" and d: "n = takeWhile (\<lambda>x. x \<noteq> NL) r"
    by (auto simp: patch_re_match_def split: if_splits list.splits)
  have "oldname = ?ds @ dropWhile is_digit oldname" by simp
  then have e: "oldname = ?ds @ ''-'' @ r" using b by simp
  have f: "\<forall>c\<in>set ?ds. is_digit c" by (auto dest: set_takeWhileD)
  have g: "r \<noteq> []" using c by auto
  show ?thesis using a e f g d by blast
qed

text \<open>
  C6, amended. For an original file name without a newline: when the option to keep the
  numbers is false and the name is a non-empty run of digits, a hyphen and a non-empty
  rest (it matches \<^verbatim>\<open>^[0-9]+-(.+)$\<close>), the destination base name is that rest; when the
  option is true, or the name is not of that form, the destination base name is the name.
\<close>

theorem dest_name_numeric_prefix:
  assumes "NL \<notin> set oldname"
  shows "(\<not> patch_numbers \<and> ds \<noteq> [] \<and> (\<forall>c\<in>set ds. is_digit c) \<and> rest \<noteq> [] \<and>
            oldname = ds @ ''-'' @ rest \<longrightarrow> dest_name patch_numbers oldname = rest) \<and>
         (patch_numbers \<or> \<not> (\<exists>ds rest. ds \<noteq> [] \<and> (\<forall>c\<in>set ds. is_digit c) \<and> rest \<noteq> [] \<and>
            oldname = ds @ ''-'' @ rest) \<longrightarrow> dest_name patch_numbers oldname = oldname)"
proof (intro conjI impI)
  assume h: "\<not> patch_numbers \<and> ds \<noteq> [] \<and> (\<forall>c\<in>set ds. is_digit c) \<and> rest \<noteq> [] \<and>
            oldname = ds @ ''-'' @ rest"
  then have "NL \<notin> set rest" using assms by auto
  with h have "patch_re_match oldname = Some rest"
    using patch_re_match_decomp [of ds rest] by simp
  with h show "dest_name patch_numbers oldname = rest" by (simp add: dest_name_def)
next
  assume h: "patch_numbers \<or> \<not> (\<exists>ds rest. ds \<noteq> [] \<and> (\<forall>c\<in>set ds. is_digit c) \<and> rest \<noteq> [] \<and>
            oldname = ds @ ''-'' @ rest)"
  show "dest_name patch_numbers oldname = oldname"
  proof (cases patch_numbers)
    case True then show ?thesis by (simp add: dest_name_def)
  next
    case False
    with h have n: "\<not> (\<exists>ds rest. ds \<noteq> [] \<and> (\<forall>c\<in>set ds. is_digit c) \<and> rest \<noteq> [] \<and>
            oldname = ds @ ''-'' @ rest)" by simp
    have "patch_re_match oldname = None"
    proof (cases "patch_re_match oldname")
      case None then show ?thesis .
    next
      case (Some n')
      from patch_re_match_Some [OF Some] n show ?thesis by blast
    qed
    then show ?thesis by (simp add: dest_name_def)
  qed
qed

theorem dest_name_numeric_prefix_witness:
  "NL \<notin> set ''0001-fix-bug.patch'' \<and>
   dest_name False ''0001-fix-bug.patch'' = ''fix-bug.patch'' \<and>
   dest_name True ''0001-fix-bug.patch'' = ''0001-fix-bug.patch'' \<and>
   dest_name False ''fix-bug.patch'' = ''fix-bug.patch''"
proof -
  have a: "NL \<notin> set ''0001-fix-bug.patch''" by (simp add: NL_def)
  have b: "NL \<notin> set ''fix-bug.patch''" by (simp add: NL_def)
  have c: "\<forall>c\<in>set ''0001''. is_digit c" by (simp add: is_digit_def)
  have d: "\<not> (\<exists>ds rest. ds \<noteq> [] \<and> (\<forall>c\<in>set ds. is_digit c) \<and> rest \<noteq> [] \<and>
            ''fix-bug.patch'' = ds @ ''-'' @ rest)"
  proof
    assume "\<exists>ds rest. ds \<noteq> [] \<and> (\<forall>c\<in>set ds. is_digit c) \<and> rest \<noteq> [] \<and>
            ''fix-bug.patch'' = ds @ ''-'' @ rest"
    then obtain ds rest where n: "ds \<noteq> []" and g: "\<forall>c\<in>set ds. is_digit c"
      and e: "''fix-bug.patch'' = ds @ ''-'' @ rest" by blast
    from n obtain c cs where ds: "ds = c # cs" by (cases ds) auto
    with e have "c = CHR ''f''" by simp
    moreover from g ds have "is_digit c" by simp
    ultimately show False by (simp add: is_digit_def)
  qed
  show ?thesis
    using a c d dest_name_numeric_prefix [OF a, of False "''0001''" "''fix-bug.patch''"]
      dest_name_numeric_prefix [OF a, of True "''0001''" "''fix-bug.patch''"]
      dest_name_numeric_prefix [OF b, of False]
    by simp
qed

section \<open>GitModifier: results\<close>

lemma up_lo: "ascii_upper c = CHR ''A'' \<longleftrightarrow> ascii_lower c = CHR ''a''"
  "ascii_upper c = CHR ''U'' \<longleftrightarrow> ascii_lower c = CHR ''u''"
  "ascii_upper c = CHR ''T'' \<longleftrightarrow> ascii_lower c = CHR ''t''"
  "ascii_upper c = CHR ''H'' \<longleftrightarrow> ascii_lower c = CHR ''h''"
  "ascii_upper c = CHR ''O'' \<longleftrightarrow> ascii_lower c = CHR ''o''"
  "ascii_upper c = CHR ''R'' \<longleftrightarrow> ascii_lower c = CHR ''r''"
  "ascii_upper c = CHR ''C'' \<longleftrightarrow> ascii_lower c = CHR ''c''"
  "ascii_upper c = CHR ''M'' \<longleftrightarrow> ascii_lower c = CHR ''m''"
  "ascii_upper c = CHR ''I'' \<longleftrightarrow> ascii_lower c = CHR ''i''"
  "ascii_upper c = CHR ''E'' \<longleftrightarrow> ascii_lower c = CHR ''e''"
  unfolding ascii_upper_def ascii_lower_def by (simp_all split: if_splits)

lemma role_author: "py_upper s = ''AUTHOR'' \<longleftrightarrow> py_lower s = ''author''"
  unfolding py_upper_def py_lower_def by (simp add: map_eq_Cons_conv up_lo)

lemma role_committer: "py_upper s = ''COMMITTER'' \<longleftrightarrow> py_lower s = ''committer''"
  unfolding py_upper_def py_lower_def by (simp add: map_eq_Cons_conv up_lo)

lemma role_accepted:
  "py_upper who \<in> set [''AUTHOR'', ''COMMITTER''] \<longleftrightarrow> py_lower who \<in> {''author'', ''committer''}"
  by (simp add: role_author role_committer)

lemma get_env_bad_role:
  "py_upper who \<notin> set [''AUTHOR'', ''COMMITTER''] \<Longrightarrow> get_env m who = Inl GitModifierError"
  by (simp add: get_env_def Let_def)

lemma get_env_good_role:
  assumes "py_upper who \<in> set [''AUTHOR'', ''COMMITTER'']"
  shows "\<exists>d. get_env m who = Inr d \<and>
           d (''GIT_'' @ py_upper who @ ''_NAME'') = (if truthy (name m) then name m else None) \<and>
           d (''GIT_'' @ py_upper who @ ''_EMAIL'') =
             (if truthy (GitModifier.email m) then GitModifier.email m else None) \<and>
           d (''GIT_'' @ py_upper who @ ''_DATE'') =
             (if truthy (GitModifier.date m) then GitModifier.date m else None) \<and>
           dom d \<subseteq> {''GIT_'' @ py_upper who @ ''_NAME'', ''GIT_'' @ py_upper who @ ''_EMAIL'',
                      ''GIT_'' @ py_upper who @ ''_DATE''}"
proof -
  have t: "\<And>x. truthy x \<Longrightarrow> Some (the x) = x" by (case_tac x) auto
  from assms have "get_env m who = Inr
     (let e0 = Map.empty;
          e1 = (if truthy (name m) then e0(''GIT_'' @ py_upper who @ ''_NAME'' \<mapsto> the (name m)) else e0);
          e2 = (if truthy (GitModifier.email m)
                then e1(''GIT_'' @ py_upper who @ ''_EMAIL'' \<mapsto> the (GitModifier.email m)) else e1)
      in (if truthy (GitModifier.date m)
          then e2(''GIT_'' @ py_upper who @ ''_DATE'' \<mapsto> the (GitModifier.date m)) else e2))"
    by (simp add: get_env_def Let_def)
  then show ?thesis by (auto simp: Let_def t split: if_splits)
qed

text \<open>
  C9. \<open>_get_env\<close> accepts the roles that are \<^verbatim>\<open>author\<close> or \<^verbatim>\<open>committer\<close> up to
  the case of their letters and raises \<open>GitModifierError\<close> for every other role. For an
  accepted role it returns a dictionary with no other keys than \<^verbatim>\<open>GIT_<ROLE>_NAME\<close>,
  \<^verbatim>\<open>GIT_<ROLE>_EMAIL\<close> and \<^verbatim>\<open>GIT_<ROLE>_DATE\<close>, where each of the three is present,
  with the value of the field, exactly when the field of the modifier is set, that is
  true for Python (neither \<open>None\<close> nor empty), as the source tests it.
\<close>

theorem get_env_roles_and_entries:
  "(py_lower who \<notin> {''author'', ''committer''} \<longrightarrow> get_env m who = Inl GitModifierError) \<and>
   (py_lower who \<in> {''author'', ''committer''} \<longrightarrow>
      (\<exists>d. get_env m who = Inr d \<and>
           d (''GIT_'' @ py_upper who @ ''_NAME'') = (if truthy (name m) then name m else None) \<and>
           d (''GIT_'' @ py_upper who @ ''_EMAIL'') =
             (if truthy (GitModifier.email m) then GitModifier.email m else None) \<and>
           d (''GIT_'' @ py_upper who @ ''_DATE'') =
             (if truthy (GitModifier.date m) then GitModifier.date m else None) \<and>
           dom d \<subseteq> {''GIT_'' @ py_upper who @ ''_NAME'', ''GIT_'' @ py_upper who @ ''_EMAIL'',
                      ''GIT_'' @ py_upper who @ ''_DATE''}))"
  using get_env_bad_role [of who m] get_env_good_role [of who m] role_accepted [of who]
  by blast

theorem get_env_roles_and_entries_witness:
  "py_lower ''Author'' \<in> {''author'', ''committer''} \<and>
   py_lower ''editor'' \<notin> {''author'', ''committer''} \<and>
   get_env \<lparr>name = Some ''foo'', email = Some ''bar'', date = None\<rparr> ''editor'' = Inl GitModifierError \<and>
   (\<exists>d. get_env \<lparr>name = Some ''foo'', email = Some ''bar'', date = None\<rparr> ''Author'' = Inr d \<and>
        d ''GIT_AUTHOR_NAME'' = Some ''foo'' \<and> d ''GIT_AUTHOR_EMAIL'' = Some ''bar'' \<and>
        d ''GIT_AUTHOR_DATE'' = None \<and>
        dom d \<subseteq> {''GIT_AUTHOR_NAME'', ''GIT_AUTHOR_EMAIL'', ''GIT_AUTHOR_DATE''})"
proof -
  define m :: GitModifier where "m = \<lparr>name = Some ''foo'', email = Some ''bar'', date = None\<rparr>"
  have a: "py_lower ''Author'' \<in> {''author'', ''committer''}" by code_simp
  have b: "py_lower ''editor'' \<notin> {''author'', ''committer''}" by code_simp
  have u: "py_upper ''Author'' = ''AUTHOR''" by code_simp
  have f: "truthy (name m)" "truthy (GitModifier.email m)" "\<not> truthy (GitModifier.date m)"
    "name m = Some ''foo''" "GitModifier.email m = Some ''bar''"
    by (simp_all add: m_def)
  from get_env_roles_and_entries [of "''editor''" m] b
  have e: "get_env m ''editor'' = Inl GitModifierError" by blast
  from get_env_roles_and_entries [of "''Author''" m] a
  obtain d where "get_env m ''Author'' = Inr d"
    "d (''GIT_'' @ py_upper ''Author'' @ ''_NAME'') = (if truthy (name m) then name m else None)"
    "d (''GIT_'' @ py_upper ''Author'' @ ''_EMAIL'') =
       (if truthy (GitModifier.email m) then GitModifier.email m else None)"
    "d (''GIT_'' @ py_upper ''Author'' @ ''_DATE'') =
       (if truthy (GitModifier.date m) then GitModifier.date m else None)"
    "dom d \<subseteq> {''GIT_'' @ py_upper ''Author'' @ ''_NAME'', ''GIT_'' @ py_upper ''Author'' @ ''_EMAIL'',
                      ''GIT_'' @ py_upper ''Author'' @ ''_DATE''}"
    by blast
  then have "get_env m ''Author'' = Inr d \<and>
        d ''GIT_AUTHOR_NAME'' = Some ''foo'' \<and> d ''GIT_AUTHOR_EMAIL'' = Some ''bar'' \<and>
        d ''GIT_AUTHOR_DATE'' = None \<and>
        dom d \<subseteq> {''GIT_AUTHOR_NAME'', ''GIT_AUTHOR_EMAIL'', ''GIT_AUTHOR_DATE''}"
    unfolding u using f by simp
  then show ?thesis using a b e unfolding m_def by blast
qed

section \<open>get_maintainer_from_control: results\<close>

text \<open>
  A control file none of whose lines has \<^verbatim>\<open>Maintainer:\<close> followed by a space makes
  \<^verbatim>\<open>sed\<close> print nothing, and then the function raises \<open>IndexError\<close>; it raises in no
  other case.
\<close>

lemma sed_subst_None:
  assumes "\<forall>a b. l \<noteq> a @ ''Maintainer: '' @ b"
  shows "sed_subst l = None"
  using assms
proof (induction l)
  case Nil
  show ?case by simp
next
  case (Cons c cs)
  have n: "\<not> startswith (c # cs) ''Maintainer: ''"
  proof
    assume "startswith (c # cs) ''Maintainer: ''"
    then obtain b where "c # cs = ''Maintainer: '' @ b"
      unfolding startswith_def prefix_def by blast
    then have "c # cs = [] @ ''Maintainer: '' @ b" by simp
    with Cons.prems show False by blast
  qed
  have "\<forall>a b. cs \<noteq> a @ ''Maintainer: '' @ b"
  proof (intro allI notI)
    fix a b assume "cs = a @ ''Maintainer: '' @ b"
    then have "c # cs = (c # a) @ ''Maintainer: '' @ b" by simp
    with Cons.prems show False by blast
  qed
  with Cons.IH have "sed_subst cs = None" by simp
  with n show ?case by simp
qed

lemma sed_maintainer_no_field:
  assumes "\<forall>l\<in>set (file_lines t). \<forall>a b. l \<noteq> a @ ''Maintainer: '' @ b"
  shows "sed_maintainer t = []"
proof -
  have "sed_subst (if l \<noteq> [] \<and> last l = NL then butlast l else l) = None"
    if "l \<in> set (file_lines t)" for l
  proof (rule sed_subst_None, intro allI notI)
    fix a b
    assume e: "(if l \<noteq> [] \<and> last l = NL then butlast l else l) = a @ ''Maintainer: '' @ b"
    show False
    proof (cases "l \<noteq> [] \<and> last l = NL")
      case True
      then have "l = butlast l @ [NL]" by (metis append_butlast_last_id)
      with e True have "l = a @ ''Maintainer: '' @ (b @ [NL])" by simp
      with assms that show False by blast
    next
      case False
      with e have "l = a @ ''Maintainer: '' @ b" by simp
      with assms that show False by blast
    qed
  qed
  then show ?thesis
    by (auto simp: sed_maintainer_def List.map_filter_def Let_def filter_empty_conv)
qed

lemma get_maintainer_no_field:
  assumes "\<forall>l\<in>set (file_lines t). \<forall>a b. l \<noteq> a @ ''Maintainer: '' @ b"
  shows "get_maintainer_from_control (Some t) = Inl IndexError"
  using sed_maintainer_no_field [OF assms]
  by (simp add: get_maintainer_from_control_def py_index_def)

lemma get_maintainer_raises_iff:
  "(\<exists>e. get_maintainer_from_control c = Inl e) \<longleftrightarrow>
   (case c of None \<Rightarrow> True | Some t \<Rightarrow> sed_maintainer t = [])"
  by (auto simp: get_maintainer_from_control_def py_index_def split: option.splits prod.splits)

lemma match_email_no_bracket:
  assumes "CHR ''<'' \<notin> set t"
  shows "match_email t = None"
proof (cases "dropWhile (\<lambda>c. c = CHR '' '') t")
  case Nil
  show ?thesis unfolding match_email_def Nil by simp
next
  case (Cons c r)
  then have "c \<in> set t" by (metis list.set_intros(1) set_dropWhileD)
  with assms have "c \<noteq> CHR ''<''" by auto
  then show ?thesis unfolding match_email_def Cons by simp
qed

lemma match_email_field:
  assumes "CHR ''>'' \<notin> set e" "NL \<notin> set e"
  shows "match_email ('' <'' @ e @ ''>'') = Some e"
proof -
  have l: "takeWhile (\<lambda>x. x \<noteq> NL) (e @ ''>'') = e @ ''>''"
    using assms(2) by (auto simp: takeWhile_eq_all_conv NL_def)
  show ?thesis
    by (simp add: match_email_def l Let_def)
qed

lemma match_name_skip:
  assumes "length n \<le> j" "j < length (n @ '' <'' @ e @ ''>'')" "CHR ''<'' \<notin> set e"
  shows "match_name (n @ '' <'' @ e @ ''>'') (Suc j) = match_name (n @ '' <'' @ e @ ''>'') j"
proof (cases "j = length n")
  case True
  then have "(n @ '' <'' @ e @ ''>'') ! j = CHR '' ''" by (simp add: nth_append)
  then show ?thesis by simp
next
  case False
  with assms(1) obtain k where k: "j = length n + Suc k" by (metis Suc_diff_Suc add_Suc_right le_add_diff_inverse le_neq_implies_less)
  have "drop (Suc j) (n @ '' <'' @ e @ ''>'') = drop k (e @ ''>'')"
    by (simp add: k)
  moreover have "CHR ''<'' \<notin> set (drop k (e @ ''>''))"
    using assms(3) by (auto dest: in_set_dropD)
  ultimately have "match_email (drop (Suc j) (n @ '' <'' @ e @ ''>'')) = None"
    by (simp add: match_email_no_bracket)
  then show ?thesis by simp
qed

lemma match_name_down:
  assumes "CHR ''<'' \<notin> set e"
  shows "length n + d \<le> length (n @ '' <'' @ e @ ''>'') \<Longrightarrow>
         match_name (n @ '' <'' @ e @ ''>'') (length n + d) = match_name (n @ '' <'' @ e @ ''>'') (length n)"
proof (induction d)
  case 0
  show ?case by simp
next
  case (Suc d)
  have "match_name (n @ '' <'' @ e @ ''>'') (Suc (length n + d)) =
        match_name (n @ '' <'' @ e @ ''>'') (length n + d)"
    using Suc.prems by (intro match_name_skip [OF _ _ assms]) simp_all
  with Suc show ?case by simp
qed

lemma maintainer_re_match_field:
  assumes "n \<noteq> []" "last n \<noteq> CHR '' ''" "NL \<notin> set n"
    and "CHR ''<'' \<notin> set e" "CHR ''>'' \<notin> set e" "NL \<notin> set e"
  shows "maintainer_re_match (n @ '' <'' @ e @ ''>'') = Some (n, e)"
proof -
  let ?s = "n @ '' <'' @ e @ ''>''"
  from assms(1) obtain m where m: "length n = Suc m" by (cases n) auto
  have a: "NL \<notin> set (take m ?s)" using assms(3) m by (auto dest: in_set_takeD)
  have b: "?s ! m = last n" using assms(1) m by (simp add: nth_append last_conv_nth)
  have c: "drop (Suc m) ?s = '' <'' @ e @ ''>''" using m by simp
  have d: "take (Suc m) ?s = n" using m by simp
  have x: "match_name ?s (length n) = Some (n, e)"
    unfolding m using a b c d assms(2) match_email_field [OF assms(5,6)]
    by (simp del: append.simps)
  have y: "match_name ?s (length n + (length e + 3)) = match_name ?s (length n)"
    by (rule match_name_down [OF assms(4)]) simp
  have z: "length ?s = length n + (length e + 3)" by simp
  show ?thesis by (simp only: maintainer_re_match_def z y x)
qed


lemma py_strip_field:
  assumes "n \<noteq> []" "\<not> py_isspace (hd n)"
  shows "py_strip (n @ '' <'' @ e @ ''>'' @ [NL]) = n @ '' <'' @ e @ ''>''"
proof -
  from assms obtain x n' where n: "n = x # n'" and x: "\<not> py_isspace x" by (cases n) auto
  have a: "dropWhile py_isspace (n @ '' <'' @ e @ ''>'' @ [NL]) = n @ '' <'' @ e @ ''>'' @ [NL]"
    using x by (simp add: n)
  have b: "py_isspace NL" "\<not> py_isspace (CHR ''>'')" by (simp_all add: py_isspace_def NL_def)
  have "rev (n @ '' <'' @ e @ ''>'' @ [NL]) = NL # CHR ''>'' # rev (n @ '' <'' @ e)" by simp
  then have "dropWhile py_isspace (rev (n @ '' <'' @ e @ ''>'' @ [NL])) = CHR ''>'' # rev (n @ '' <'' @ e)"
    using b by simp
  then show ?thesis unfolding py_strip_def a by simp
qed

text \<open>
  When the first line that \<^verbatim>\<open>sed\<close> prints is a name, a space, and an address in
  angle brackets, the function returns the name and the address.
\<close>

lemma get_maintainer_parses:
  assumes "sed_maintainer t = (n @ '' <'' @ e @ ''>'' @ [NL]) # rest"
    and "n \<noteq> []" "\<not> py_isspace (hd n)" "last n \<noteq> CHR '' ''" "NL \<notin> set n"
    and "CHR ''<'' \<notin> set e" "CHR ''>'' \<notin> set e" "NL \<notin> set e"
  shows "get_maintainer_from_control (Some t) = Inr (Some n, Some e)"
  using assms(1) py_strip_field [OF assms(2,3), of e]
    maintainer_re_match_field [OF assms(2,4,5,6,7,8)]
  by (simp add: get_maintainer_from_control_def py_index_def del: append.simps)

lemma match_name_no_bracket:
  assumes "CHR ''<'' \<notin> set s"
  shows "match_name s k = None"
proof (induction k)
  case 0
  show ?case by simp
next
  case (Suc k)
  have "CHR ''<'' \<notin> set (drop (Suc k) s)" using assms by (auto dest: in_set_dropD)
  then have "match_email (drop (Suc k) s) = None" by (rule match_email_no_bracket)
  with Suc show ?case by simp
qed

text \<open>
  When \<^verbatim>\<open>sed\<close> prints a first line without an opening angle bracket, the function
  returns \<open>(None, None)\<close>.
\<close>

lemma get_maintainer_unparseable:
  assumes "sed_maintainer t = l # rest" "CHR ''<'' \<notin> set l"
  shows "get_maintainer_from_control (Some t) = Inr (None, None)"
proof -
  have "set (py_strip l) \<subseteq> set l"
    unfolding py_strip_def by (auto dest!: set_dropWhileD)
  with assms(2) have "CHR ''<'' \<notin> set (py_strip l)" by auto
  then have "maintainer_re_match (py_strip l) = None"
    unfolding maintainer_re_match_def by (rule match_name_no_bracket)
  with assms(1) show ?thesis
    by (simp add: get_maintainer_from_control_def py_index_def)
qed

text \<open>
  C7 on the code: with a control file that has no \<^verbatim>\<open>Maintainer: \<close> line, and with no
  control file, \<^verbatim>\<open>sed\<close> prints nothing and \<open>readlines()[0]\<close> raises \<open>IndexError\<close>;
  the function does not return \<open>(None, None)\<close>.
\<close>

theorem get_maintainer_missing_field_raises:
  "get_maintainer_from_control (Some (''Source: gbp'' @ [NL] @ ''Section: vcs'' @ [NL])) = Inl IndexError \<and>
   get_maintainer_from_control None = Inl IndexError"
  by code_simp

text \<open>A field of the form \<^verbatim>\<open>Name <email>\<close> is parsed; one without brackets gives
  \<open>(None, None)\<close>.\<close>

lemma get_maintainer_examples:
  "get_maintainer_from_control
     (Some (''Source: gbp'' @ [NL] @ ''Maintainer: Jane Doe <jane@example.org>'' @ [NL])) =
     Inr (Some ''Jane Doe'', Some ''jane@example.org'')"
  "get_maintainer_from_control (Some (''Maintainer: Jane Doe'' @ [NL])) = Inr (None, None)"
  by code_simp+

lemma apply_and_commit_resolved:
  assumes "resolve_author E (Some h) p = Inr a" "head r = Some h"
  shows "apply_and_commit_patch E p (topic p) r =
     (if apply_patch_ok E (Some h) (path p)
      then (None, r\<lparr>calls := calls r @ [ApplyPatch (path p)],
                     branches := (branches r)(current r \<mapsto> patched E h p)\<rparr>)
      else (Some CommandExecFailed, r\<lparr>calls := calls r @ [ApplyPatch (path p)]\<rparr>))"
  using assms by (simp add: apply_and_commit_patch_def patched_def head_def Let_def)

section \<open>The import: results\<close>

lemma apply_and_commit_patch_calls:
  "\<exists>cs. calls (snd (apply_and_commit_patch E p t r)) = calls r @ cs"
  by (auto simp: apply_and_commit_patch_def Let_def head_def split: sum.splits option.splits)

lemma apply_and_commit_patch_tmpdirs:
  "tmpdirs (snd (apply_and_commit_patch E p t r)) = tmpdirs r"
  by (auto simp: apply_and_commit_patch_def Let_def head_def split: sum.splits option.splits)

lemma apply_queue_calls:
  "\<exists>cs. calls (snd (apply_queue E b pq q r)) = calls r @ cs"
proof (induction q arbitrary: r)
  case Nil
  show ?case by simp
next
  case (Cons p q)
  obtain eo r' where a: "apply_and_commit_patch E p (topic p) r = (eo, r')"
    by (cases "apply_and_commit_patch E p (topic p) r")
  from apply_and_commit_patch_calls [of E p "topic p" r] a
  obtain cs where c: "calls r' = calls r @ cs" by auto
  show ?case
  proof (cases eo)
    case None
    from Cons.IH [of r'] obtain cs' where "calls (snd (apply_queue E b pq q r')) = calls r' @ cs'" ..
    with a None c show ?thesis by simp
  next
    case (Some e)
    with a c show ?thesis by (simp add: set_branch_def delete_branch_def)
  qed
qed

lemma apply_queue_tmpdirs:
  "tmpdirs (snd (apply_queue E b pq q r)) = tmpdirs r"
proof (induction q arbitrary: r)
  case Nil
  show ?case by simp
next
  case (Cons p q)
  obtain eo r' where a: "apply_and_commit_patch E p (topic p) r = (eo, r')"
    by (cases "apply_and_commit_patch E p (topic p) r")
  from apply_and_commit_patch_tmpdirs [of E p "topic p" r] a
  have c: "tmpdirs r' = tmpdirs r" by simp
  show ?case
  proof (cases eo)
    case None
    with a c Cons.IH [of r'] show ?thesis by simp
  next
    case (Some e)
    with a c show ?thesis by (simp add: set_branch_def delete_branch_def)
  qed
qed

lemma try_commits_tmpdirs:
  "tmpdirs (snd (try_commits E b pq q cs r)) = tmpdirs r"
proof (induction cs arbitrary: r)
  case Nil
  show ?case by simp
next
  case (Cons c cs)
  show ?case
  proof (cases "create_branch_ok E pq c")
    case False
    then show ?thesis by (simp add: create_branch_def)
  next
    case True
    define r1 where "r1 = set_branch pq (r\<lparr>branches := (branches r)(pq \<mapsto> c), calls := calls r @ [CreateBranch pq c]\<rparr>)"
    obtain x r2 where a: "apply_queue E b pq q r1 = (x, r2)" by (cases "apply_queue E b pq q r1")
    from apply_queue_tmpdirs [of E b pq q r1] a have t: "tmpdirs r2 = tmpdirs r"
      by (simp add: r1_def set_branch_def)
    from True a have "try_commits E b pq q (c # cs) r =
       (case x of Completed \<Rightarrow> (None, r2) | Broke \<Rightarrow> try_commits E b pq q cs r2 | Raised e \<Rightarrow> (Some e, r2))"
      by (simp add: create_branch_def r1_def)
    with t Cons.IH [of r2] show ?thesis by (cases x) simp_all
  qed
qed

lemma try_commits_calls:
  "\<exists>cs'. calls (snd (try_commits E b pq q cs r)) = calls r @ cs'"
proof (induction cs arbitrary: r)
  case Nil
  show ?case by simp
next
  case (Cons c cs)
  show ?case
  proof (cases "create_branch_ok E pq c")
    case False
    then show ?thesis by (simp add: create_branch_def)
  next
    case True
    define r1 where "r1 = set_branch pq (r\<lparr>branches := (branches r)(pq \<mapsto> c), calls := calls r @ [CreateBranch pq c]\<rparr>)"
    obtain x r2 where a: "apply_queue E b pq q r1 = (x, r2)" by (cases "apply_queue E b pq q r1")
    from apply_queue_calls [of E b pq q r1] a obtain cs1 where t: "calls r2 = calls r1 @ cs1"
      by auto
    have u: "calls r1 = calls r @ [CreateBranch pq c, SetBranch pq]"
      by (simp add: r1_def set_branch_def)
    from True a have e: "try_commits E b pq q (c # cs) r =
       (case x of Completed \<Rightarrow> (None, r2) | Broke \<Rightarrow> try_commits E b pq q cs r2 | Raised e \<Rightarrow> (Some e, r2))"
      by (simp add: create_branch_def r1_def)
    from Cons.IH [of r2] obtain cs2 where "calls (snd (try_commits E b pq q cs r2)) = calls r2 @ cs2" ..
    with e t u show ?thesis by (cases x) simp_all
  qed
qed

lemma try_commits_first_call:
  "\<exists>cs'. calls (snd (try_commits E b pq q (c # cs) r)) = calls r @ CreateBranch pq c # cs'"
proof (cases "create_branch_ok E pq c")
  case False
  then show ?thesis by (simp add: create_branch_def)
next
  case True
  define r1 where "r1 = set_branch pq (r\<lparr>branches := (branches r)(pq \<mapsto> c), calls := calls r @ [CreateBranch pq c]\<rparr>)"
  obtain x r2 where a: "apply_queue E b pq q r1 = (x, r2)" by (cases "apply_queue E b pq q r1")
  from apply_queue_calls [of E b pq q r1] a obtain cs1 where t: "calls r2 = calls r1 @ cs1"
    by auto
  have u: "calls r1 = calls r @ [CreateBranch pq c, SetBranch pq]"
    by (simp add: r1_def set_branch_def)
  from True a have e: "try_commits E b pq q (c # cs) r =
     (case x of Completed \<Rightarrow> (None, r2) | Broke \<Rightarrow> try_commits E b pq q cs r2 | Raised e \<Rightarrow> (Some e, r2))"
    by (simp add: create_branch_def r1_def)
  from try_commits_calls [of E b pq q cs r2]
  obtain cs2 where "calls (snd (try_commits E b pq q cs r2)) = calls r2 @ cs2" ..
  with e t u show ?thesis by (cases x) simp_all
qed

text \<open>The import once the branch checks are passed: the time machine.\<close>

lemma import_entered:
  assumes "\<not> is_pq_branch b" "\<not> has_branch r (PQ_BRANCH_PREFIX @ b)"
  shows "import_quilt_patches E r b s t f =
     (let commits = get_commits r t;
          snap = (if length commits > 1 then Some (safe_patches E s r) else None);
          r3 = (case snap of None \<Rightarrow> r | Some (d, s', r') \<Rightarrow> r');
          s3 = (case snap of None \<Rightarrow> s | Some (d, s', r') \<Rightarrow> s')
      in case try_commits E b (PQ_BRANCH_PREFIX @ b) (read_series_file E s3) commits r3 of
           (Some e, r4) \<Rightarrow> (Some e, r4)
         | (None, r4) \<Rightarrow>
             (case snap of None \<Rightarrow> (None, r4) | Some (d, s', r') \<Rightarrow> (None, rmtree d r4)))"
  using assms
  by (simp add: import_quilt_patches_def pq_branch_name_def Let_def safe_patches_def
      os_path_join_def startswith_def split: prod.splits option.splits)

lemma has_branch_delete: "\<not> has_branch (delete_branch b r) b"
  by (simp add: has_branch_def delete_branch_def)

lemma import_on_pq_unforced:
  "is_pq_branch b \<Longrightarrow> import_quilt_patches E r b s t False = (Some (GbpError []), r)"
  by (simp add: import_quilt_patches_def)

lemma import_exists_unforced:
  "\<not> is_pq_branch b \<Longrightarrow> has_branch r (PQ_BRANCH_PREFIX @ b) \<Longrightarrow>
   import_quilt_patches E r b s t False =
     (Some (GbpError (''Patch queue branch '' @ [CHR 0x27] @ PQ_BRANCH_PREFIX @ b @ [CHR 0x27]
        @ ''. already exists. Try '' @ [CHR 0x27] @ ''rebase'' @ [CHR 0x27] @ '' instead.'')), r)"
  by (simp add: import_quilt_patches_def pq_branch_name_def)

lemma import_on_pq_forced:
  assumes "is_pq_branch b" "\<not> is_pq_branch (drop (length PQ_BRANCH_PREFIX) b)"
  shows "import_quilt_patches E r b s t True =
         import_quilt_patches E (checkout (drop (length PQ_BRANCH_PREFIX) b) r)
           (drop (length PQ_BRANCH_PREFIX) b) s t True"
  using assms by (simp add: import_quilt_patches_def pq_branch_base_def)

lemma import_exists_forced:
  assumes "\<not> is_pq_branch b" "has_branch r (PQ_BRANCH_PREFIX @ b)"
  shows "import_quilt_patches E r b s t True =
         import_quilt_patches E (delete_branch (PQ_BRANCH_PREFIX @ b) r) b s t True"
proof -
  have d: "drop_pq r b = (None, delete_branch (PQ_BRANCH_PREFIX @ b) r)"
    using assms by (simp add: drop_pq_def pq_branch_name_def)
  show ?thesis
    using assms d has_branch_delete [of "PQ_BRANCH_PREFIX @ b" r]
    by (simp add: import_quilt_patches_def pq_branch_name_def)
qed

lemma import_entered_calls:
  assumes "\<not> is_pq_branch b" "\<not> has_branch r (PQ_BRANCH_PREFIX @ b)"
  shows "\<exists>cs. calls (snd (import_quilt_patches E r b s t f)) = calls r @ cs"
proof -
  define commits where "commits = get_commits r t"
  define snap where "snap = (if length commits > 1 then Some (safe_patches E s r) else None)"
  define r3 where "r3 = (case snap of None \<Rightarrow> r | Some (d, s', r') \<Rightarrow> r')"
  define s3 where "s3 = (case snap of None \<Rightarrow> s | Some (d, s', r') \<Rightarrow> s')"
  obtain eo r4 where tc: "try_commits E b (PQ_BRANCH_PREFIX @ b) (read_series_file E s3) commits r3 = (eo, r4)"
    by (cases "try_commits E b (PQ_BRANCH_PREFIX @ b) (read_series_file E s3) commits r3")
  have a: "\<exists>cs. calls r3 = calls r @ cs"
    by (simp add: r3_def snap_def safe_patches_def Let_def)
  from try_commits_calls [of E b "PQ_BRANCH_PREFIX @ b" "read_series_file E s3" commits r3] tc
  have b: "\<exists>cs. calls r4 = calls r3 @ cs" by simp
  have "import_quilt_patches E r b s t f =
     (case eo of Some e \<Rightarrow> (Some e, r4)
      | None \<Rightarrow> (case snap of None \<Rightarrow> (None, r4) | Some (d, s', r') \<Rightarrow> (None, rmtree d r4)))"
    using tc unfolding import_entered [OF assms] Let_def commits_def [symmetric] snap_def [symmetric]
      r3_def [symmetric] s3_def [symmetric]
    by (simp split: option.splits)
  then have "\<exists>cs. calls (snd (import_quilt_patches E r b s t f)) = calls r4 @ cs"
    by (auto simp: rmtree_def split: option.splits)
  with a b show ?thesis by auto
qed

lemma import_checkout_first:
  assumes "is_pq_branch b"
  shows "\<exists>cs. calls (snd (import_quilt_patches E r b s t True)) =
           calls r @ Checkout (drop (length PQ_BRANCH_PREFIX) b) # cs"
proof -
  let ?base = "drop (length PQ_BRANCH_PREFIX) b"
  let ?r1 = "checkout ?base r"
  have c: "calls ?r1 = calls r @ [Checkout ?base]" by (simp add: checkout_def)
  show ?thesis
  proof (cases "is_pq_branch ?base")
    case True
    with assms have "import_quilt_patches E r b s t True = (Some NoneBranchName, ?r1)"
      by (simp add: import_quilt_patches_def pq_branch_base_def pq_branch_name_def)
    with c show ?thesis by simp
  next
    case False
    note e = import_on_pq_forced [OF assms False, of E r s t]
    show ?thesis
    proof (cases "has_branch ?r1 (PQ_BRANCH_PREFIX @ ?base)")
      case False
      from import_entered_calls [OF \<open>\<not> is_pq_branch ?base\<close> False, of E s t True] e c
      show ?thesis by auto
    next
      case True
      let ?r2 = "delete_branch (PQ_BRANCH_PREFIX @ ?base) ?r1"
      have d: "calls ?r2 = calls r @ [Checkout ?base, DeleteBranch (PQ_BRANCH_PREFIX @ ?base)]"
        by (simp add: delete_branch_def checkout_def)
      from import_exists_forced [OF \<open>\<not> is_pq_branch ?base\<close> True, of E s t]
        import_entered_calls [OF \<open>\<not> is_pq_branch ?base\<close> has_branch_delete, of E ?r1 s t True]
        e d
      show ?thesis by auto
    qed
  qed
qed

text \<open>
  C8. On a patch-queue branch without \<open>force\<close> the import fails with a \<open>GbpError\<close>
  and does nothing; when the target patch-queue branch exists and \<open>force\<close> is unset it
  fails with the error that names the branch and says to try rebase, and does nothing.
  With \<open>force\<close>, in the first case the first call to the repository checks out the base
  branch, and (the base being a regular branch) the import goes on as the import on the
  base branch from there; in the second case the import goes on as the import from the
  state in which the existing patch-queue branch has been deleted.
\<close>

theorem import_branch_preconditions:
  "(is_pq_branch b \<and> \<not> force \<longrightarrow>
      import_quilt_patches E r b s t force = (Some (GbpError []), r)) \<and>
   (\<not> is_pq_branch b \<and> has_branch r (PQ_BRANCH_PREFIX @ b) \<and> \<not> force \<longrightarrow>
      import_quilt_patches E r b s t force =
        (Some (GbpError (''Patch queue branch '' @ [CHR 0x27] @ PQ_BRANCH_PREFIX @ b @ [CHR 0x27]
           @ ''. already exists. Try '' @ [CHR 0x27] @ ''rebase'' @ [CHR 0x27] @ '' instead.'')), r)) \<and>
   (is_pq_branch b \<and> force \<longrightarrow>
      (\<exists>cs. calls (snd (import_quilt_patches E r b s t force)) =
          calls r @ Checkout (drop (length PQ_BRANCH_PREFIX) b) # cs)) \<and>
   (is_pq_branch b \<and> force \<and> \<not> is_pq_branch (drop (length PQ_BRANCH_PREFIX) b) \<longrightarrow>
      import_quilt_patches E r b s t force =
        import_quilt_patches E (checkout (drop (length PQ_BRANCH_PREFIX) b) r)
          (drop (length PQ_BRANCH_PREFIX) b) s t force) \<and>
   (\<not> is_pq_branch b \<and> has_branch r (PQ_BRANCH_PREFIX @ b) \<and> force \<longrightarrow>
      import_quilt_patches E r b s t force =
        import_quilt_patches E (delete_branch (PQ_BRANCH_PREFIX @ b) r) b s t force \<and>
      \<not> has_branch (delete_branch (PQ_BRANCH_PREFIX @ b) r) (PQ_BRANCH_PREFIX @ b))"
  using import_on_pq_unforced [of b E r s t] import_exists_unforced [of b r E s t]
    import_checkout_first [of b E r s t] import_on_pq_forced [of b E r s t]
    import_exists_forced [of b r E s t] has_branch_delete [of "PQ_BRANCH_PREFIX @ b" r]
  by (cases force) simp_all

theorem import_branch_preconditions_witness:
  "is_pq_branch ''patch-queue/master'' \<and> \<not> is_pq_branch ''master'' \<and>
   has_branch \<lparr>branches = [''master'' \<mapsto> Root ''c0'', ''patch-queue/master'' \<mapsto> Root ''c0''], current = ''patch-queue/master'', tmpdirs = [], calls = []\<rparr> (PQ_BRANCH_PREFIX @ ''master'') \<and>
   fst (import_quilt_patches \<lparr>create_branch_ok = (\<lambda>b c. True), apply_patch_ok = (\<lambda>h p. True), control_file = (\<lambda>h. None), read_series_file = (\<lambda>s. []), mkdtemp_random = ''XXXXXX''\<rparr> \<lparr>branches = [''master'' \<mapsto> Root ''c0'', ''patch-queue/master'' \<mapsto> Root ''c0''], current = ''patch-queue/master'', tmpdirs = [], calls = []\<rparr> ''patch-queue/master'' ''s'' 1 False) = Some (GbpError []) \<and>
   (\<exists>m. fst (import_quilt_patches \<lparr>create_branch_ok = (\<lambda>b c. True), apply_patch_ok = (\<lambda>h p. True), control_file = (\<lambda>h. None), read_series_file = (\<lambda>s. []), mkdtemp_random = ''XXXXXX''\<rparr> \<lparr>branches = [''master'' \<mapsto> Root ''c0'', ''patch-queue/master'' \<mapsto> Root ''c0''], current = ''patch-queue/master'', tmpdirs = [], calls = []\<rparr> ''master'' ''s'' 1 False) = Some (GbpError m)) \<and>
   (\<exists>cs. calls (snd (import_quilt_patches \<lparr>create_branch_ok = (\<lambda>b c. True), apply_patch_ok = (\<lambda>h p. True), control_file = (\<lambda>h. None), read_series_file = (\<lambda>s. []), mkdtemp_random = ''XXXXXX''\<rparr> \<lparr>branches = [''master'' \<mapsto> Root ''c0'', ''patch-queue/master'' \<mapsto> Root ''c0''], current = ''patch-queue/master'', tmpdirs = [], calls = []\<rparr> ''patch-queue/master'' ''s'' 1 True)) =
       Checkout ''master'' # cs) \<and>
   import_quilt_patches \<lparr>create_branch_ok = (\<lambda>b c. True), apply_patch_ok = (\<lambda>h p. True), control_file = (\<lambda>h. None), read_series_file = (\<lambda>s. []), mkdtemp_random = ''XXXXXX''\<rparr> \<lparr>branches = [''master'' \<mapsto> Root ''c0'', ''patch-queue/master'' \<mapsto> Root ''c0''], current = ''patch-queue/master'', tmpdirs = [], calls = []\<rparr> ''patch-queue/master'' ''s'' 1 True =
     import_quilt_patches \<lparr>create_branch_ok = (\<lambda>b c. True), apply_patch_ok = (\<lambda>h p. True), control_file = (\<lambda>h. None), read_series_file = (\<lambda>s. []), mkdtemp_random = ''XXXXXX''\<rparr> (checkout ''master'' \<lparr>branches = [''master'' \<mapsto> Root ''c0'', ''patch-queue/master'' \<mapsto> Root ''c0''], current = ''patch-queue/master'', tmpdirs = [], calls = []\<rparr>) ''master'' ''s'' 1 True \<and>
   import_quilt_patches \<lparr>create_branch_ok = (\<lambda>b c. True), apply_patch_ok = (\<lambda>h p. True), control_file = (\<lambda>h. None), read_series_file = (\<lambda>s. []), mkdtemp_random = ''XXXXXX''\<rparr> \<lparr>branches = [''master'' \<mapsto> Root ''c0'', ''patch-queue/master'' \<mapsto> Root ''c0''], current = ''patch-queue/master'', tmpdirs = [], calls = []\<rparr> ''master'' ''s'' 1 True =
     import_quilt_patches \<lparr>create_branch_ok = (\<lambda>b c. True), apply_patch_ok = (\<lambda>h p. True), control_file = (\<lambda>h. None), read_series_file = (\<lambda>s. []), mkdtemp_random = ''XXXXXX''\<rparr> (delete_branch ''patch-queue/master'' \<lparr>branches = [''master'' \<mapsto> Root ''c0'', ''patch-queue/master'' \<mapsto> Root ''c0''], current = ''patch-queue/master'', tmpdirs = [], calls = []\<rparr>) ''master'' ''s'' 1 True"
proof -
  define E where "E = \<lparr>create_branch_ok = (\<lambda>b c. True), apply_patch_ok = (\<lambda>h p. True), control_file = (\<lambda>h. None), read_series_file = (\<lambda>s. []), mkdtemp_random = ''XXXXXX''\<rparr>"
  define r where "r = \<lparr>branches = [''master'' \<mapsto> Root ''c0'', ''patch-queue/master'' \<mapsto> Root ''c0''], current = ''patch-queue/master'', tmpdirs = [], calls = []\<rparr>"
  have a: "is_pq_branch ''patch-queue/master''" by code_simp
  have b: "\<not> is_pq_branch ''master''" by code_simp
  have b': "\<not> is_pq_branch (drop (length PQ_BRANCH_PREFIX) ''patch-queue/master'')" by code_simp
  have d: "drop (length PQ_BRANCH_PREFIX) ''patch-queue/master'' = ''master''" by code_simp
  have p: "PQ_BRANCH_PREFIX @ ''master'' = ''patch-queue/master''" by code_simp
  have h: "has_branch r (PQ_BRANCH_PREFIX @ ''master'')"
    unfolding r_def by (simp add: has_branch_def PQ_BRANCH_PREFIX_def)
  have cr: "calls r = []" unfolding r_def by simp
  note t1 = import_branch_preconditions [where b = "''patch-queue/master''" and force = False and E = E and r = r and s = "''s''" and t = 1]
  note t2 = import_branch_preconditions [where b = "''master''" and force = False and E = E and r = r and s = "''s''" and t = 1]
  note t3 = import_branch_preconditions [where b = "''patch-queue/master''" and force = True and E = E and r = r and s = "''s''" and t = 1]
  note t4 = import_branch_preconditions [where b = "''master''" and force = True and E = E and r = r and s = "''s''" and t = 1]
  have 1: "fst (import_quilt_patches E r ''patch-queue/master'' ''s'' 1 False) = Some (GbpError [])"
    using t1 a by simp
  have 2: "\<exists>m. fst (import_quilt_patches E r ''master'' ''s'' 1 False) = Some (GbpError m)"
    using t2 b h by simp
  have 3: "\<exists>cs. calls (snd (import_quilt_patches E r ''patch-queue/master'' ''s'' 1 True)) =
       Checkout ''master'' # cs"
    using t3 a d cr by simp
  have 4: "import_quilt_patches E r ''patch-queue/master'' ''s'' 1 True =
     import_quilt_patches E (checkout ''master'' r) ''master'' ''s'' 1 True"
    using t3 a b' d by simp
  have 5: "import_quilt_patches E r ''master'' ''s'' 1 True =
     import_quilt_patches E (delete_branch ''patch-queue/master'' r) ''master'' ''s'' 1 True"
    using t4 b h p by simp
  show ?thesis using a b h 1 2 3 4 5 unfolding E_def r_def by blast
qed

lemma first_parent_walk_hd: "\<exists>cs. first_parent_walk c = c # cs"
  by (cases c) simp_all

lemma get_commits_first:
  assumes "head r = Some c" "1 \<le> t"
  shows "\<exists>cs. get_commits r t = c # cs"
proof -
  from first_parent_walk_hd obtain cs where w: "first_parent_walk c = c # cs" ..
  from assms(2) obtain n where n: "nat t = Suc n" by (cases "nat t") auto
  show ?thesis using assms(1) w n by (simp add: get_commits_def)
qed

lemma import_first_candidate:
  assumes "\<not> is_pq_branch b" "\<not> has_branch r (PQ_BRANCH_PREFIX @ b)" "head r = Some c" "1 \<le> t"
  shows "CreateBranch (PQ_BRANCH_PREFIX @ b) c \<in> set (calls (snd (import_quilt_patches E r b s t f)))"
proof -
  from get_commits_first [OF assms(3,4)] obtain cs where g: "get_commits r t = c # cs" ..
  define snap where "snap = (if length (c # cs) > 1 then Some (safe_patches E s r) else None)"
  define r3 where "r3 = (case snap of None \<Rightarrow> r | Some (d, s', r') \<Rightarrow> r')"
  define s3 where "s3 = (case snap of None \<Rightarrow> s | Some (d, s', r') \<Rightarrow> s')"
  obtain eo r4 where tc: "try_commits E b (PQ_BRANCH_PREFIX @ b) (read_series_file E s3) (c # cs) r3 = (eo, r4)"
    by (cases "try_commits E b (PQ_BRANCH_PREFIX @ b) (read_series_file E s3) (c # cs) r3")
  from try_commits_first_call [of E b "PQ_BRANCH_PREFIX @ b" "read_series_file E s3" c cs r3] tc
  have m: "CreateBranch (PQ_BRANCH_PREFIX @ b) c \<in> set (calls r4)" by auto
  have "import_quilt_patches E r b s t f =
     (case eo of Some e \<Rightarrow> (Some e, r4)
      | None \<Rightarrow> (case snap of None \<Rightarrow> (None, r4) | Some (d, s', r') \<Rightarrow> (None, rmtree d r4)))"
    using tc unfolding import_entered [OF assms(1,2)] Let_def g snap_def [symmetric]
      r3_def [symmetric] s3_def [symmetric]
    by (simp split: option.splits)
  then show ?thesis using m by (auto simp: rmtree_def split: option.splits)
qed

lemma main_except_calls: "calls (snd (main_except x)) = calls (snd x)"
  by (cases x rule: main_except.cases) simp_all

text \<open>
  C10. For the import action \<open>main\<close> calls \<open>import_quilt_patches\<close> with \<open>tries\<close>
  equal to the configured time-machine value when that is positive and to 1 otherwise, so
  \<open>tries\<close> is at least 1; the commit checked out is then the first candidate, and when
  the branch checks pass the patch-queue branch is created at it.
\<close>

theorem main_import_tries:
  "\<exists>tries. 1 \<le> tries \<and> (0 < time_machine \<longrightarrow> tries = time_machine) \<and>
     (time_machine \<le> 0 \<longrightarrow> tries = 1) \<and>
     main_import E r time_machine force =
       main_except (import_quilt_patches E r (current r) SERIES_FILE tries force) \<and>
     (\<forall>c. head r = Some c \<longrightarrow> (\<exists>cs. get_commits r tries = c # cs)) \<and>
     (\<forall>c. head r = Some c \<and> \<not> is_pq_branch (current r) \<and>
          \<not> has_branch r (PQ_BRANCH_PREFIX @ current r) \<longrightarrow>
          CreateBranch (PQ_BRANCH_PREFIX @ current r) c
            \<in> set (calls (snd (main_import E r time_machine force))))"
proof -
  define tries where "tries = (if time_machine > 0 then time_machine else 1)"
  have a: "1 \<le> tries" by (simp add: tries_def)
  have m: "main_import E r time_machine force =
       main_except (import_quilt_patches E r (current r) SERIES_FILE tries force)"
    by (simp add: main_import_def tries_def Let_def)
  have g: "\<forall>c. head r = Some c \<longrightarrow> (\<exists>cs. get_commits r tries = c # cs)"
    using get_commits_first [OF _ a] by blast
  have f: "\<forall>c. head r = Some c \<and> \<not> is_pq_branch (current r) \<and>
          \<not> has_branch r (PQ_BRANCH_PREFIX @ current r) \<longrightarrow>
          CreateBranch (PQ_BRANCH_PREFIX @ current r) c
            \<in> set (calls (snd (main_import E r time_machine force)))"
    unfolding m main_except_calls using import_first_candidate [OF _ _ _ a] by blast
  have t: "0 < time_machine \<longrightarrow> tries = time_machine" "time_machine \<le> 0 \<longrightarrow> tries = 1"
    by (simp_all add: tries_def)
  show ?thesis using a m g f t by blast
qed

theorem main_import_tries_witness:
  "head \<lparr>branches = [''master'' \<mapsto> Root ''c0''], current = ''master'', tmpdirs = [], calls = []\<rparr> = Some (Root ''c0'') \<and> \<not> is_pq_branch (current \<lparr>branches = [''master'' \<mapsto> Root ''c0''], current = ''master'', tmpdirs = [], calls = []\<rparr>) \<and>
   \<not> has_branch \<lparr>branches = [''master'' \<mapsto> Root ''c0''], current = ''master'', tmpdirs = [], calls = []\<rparr> (PQ_BRANCH_PREFIX @ current \<lparr>branches = [''master'' \<mapsto> Root ''c0''], current = ''master'', tmpdirs = [], calls = []\<rparr>) \<and>
   (\<exists>tries. 1 \<le> tries \<and> tries = 1 \<and>
      main_import \<lparr>create_branch_ok = (\<lambda>b c. True), apply_patch_ok = (\<lambda>h p. True), control_file = (\<lambda>h. None), read_series_file = (\<lambda>s. []), mkdtemp_random = ''XXXXXX''\<rparr> \<lparr>branches = [''master'' \<mapsto> Root ''c0''], current = ''master'', tmpdirs = [], calls = []\<rparr> (- 3) False =
        main_except (import_quilt_patches \<lparr>create_branch_ok = (\<lambda>b c. True), apply_patch_ok = (\<lambda>h p. True), control_file = (\<lambda>h. None), read_series_file = (\<lambda>s. []), mkdtemp_random = ''XXXXXX''\<rparr> \<lparr>branches = [''master'' \<mapsto> Root ''c0''], current = ''master'', tmpdirs = [], calls = []\<rparr> (current \<lparr>branches = [''master'' \<mapsto> Root ''c0''], current = ''master'', tmpdirs = [], calls = []\<rparr>) SERIES_FILE tries False) \<and>
      (\<exists>cs. get_commits \<lparr>branches = [''master'' \<mapsto> Root ''c0''], current = ''master'', tmpdirs = [], calls = []\<rparr> tries = Root ''c0'' # cs) \<and>
      CreateBranch (PQ_BRANCH_PREFIX @ current \<lparr>branches = [''master'' \<mapsto> Root ''c0''], current = ''master'', tmpdirs = [], calls = []\<rparr>) (Root ''c0'')
        \<in> set (calls (snd (main_import \<lparr>create_branch_ok = (\<lambda>b c. True), apply_patch_ok = (\<lambda>h p. True), control_file = (\<lambda>h. None), read_series_file = (\<lambda>s. []), mkdtemp_random = ''XXXXXX''\<rparr> \<lparr>branches = [''master'' \<mapsto> Root ''c0''], current = ''master'', tmpdirs = [], calls = []\<rparr> (- 3) False))))"
proof -
  define E where "E = \<lparr>create_branch_ok = (\<lambda>b c. True), apply_patch_ok = (\<lambda>h p. True), control_file = (\<lambda>h. None), read_series_file = (\<lambda>s. []), mkdtemp_random = ''XXXXXX''\<rparr>"
  define r where "r = \<lparr>branches = [''master'' \<mapsto> Root ''c0''], current = ''master'', tmpdirs = [], calls = []\<rparr>"
  have h: "head r = Some (Root ''c0'')" unfolding r_def by (simp add: head_def)
  have c: "current r = ''master''" unfolding r_def by simp
  have b: "\<not> is_pq_branch (current r)" unfolding c by code_simp
  have n: "\<not> has_branch r (PQ_BRANCH_PREFIX @ current r)"
    unfolding r_def by (simp add: has_branch_def PQ_BRANCH_PREFIX_def)
  from main_import_tries [where time_machine = "- 3" and E = E and r = r and force = False] obtain tries where
    t: "1 \<le> tries" "(- 3::int) \<le> 0 \<longrightarrow> tries = 1"
    "main_import E r (- 3) False =
       main_except (import_quilt_patches E r (current r) SERIES_FILE tries False)"
    "\<forall>c. head r = Some c \<longrightarrow> (\<exists>cs. get_commits r tries = c # cs)"
    "\<forall>c. head r = Some c \<and> \<not> is_pq_branch (current r) \<and>
          \<not> has_branch r (PQ_BRANCH_PREFIX @ current r) \<longrightarrow>
          CreateBranch (PQ_BRANCH_PREFIX @ current r) c
            \<in> set (calls (snd (main_import E r (- 3) False)))"
    by blast
  from t(2) have t1: "tries = 1" by simp
  from t(4) h have g: "\<exists>cs. get_commits r tries = Root ''c0'' # cs" by blast
  from t(5) h b n have f: "CreateBranch (PQ_BRANCH_PREFIX @ current r) (Root ''c0'')
        \<in> set (calls (snd (main_import E r (- 3) False)))" by blast
  show ?thesis using h b n t(1) t1 t(3) g f unfolding E_def r_def by blast
qed

text \<open>
  The two loops against the time machine as the specification words it, for a series
  whose author resolution raises nothing: the same error, the same calls in the same
  order, and after exhaustion the base branch checked out and no patch-queue branch.
\<close>

lemma apply_queue_spec:
  assumes "\<forall>h. \<forall>p\<in>set q. \<exists>a. resolve_author E h p = Inr a" "head r = Some h"
  shows "\<exists>r'. apply_queue E b pq q r =
            (if snd (spec_apply_series E h q) then Completed else Broke, r') \<and>
          calls r' = calls r @ fst (spec_apply_series E h q) @
            (if snd (spec_apply_series E h q) then [] else [SetBranch b, DeleteBranch pq]) \<and>
          tmpdirs r' = tmpdirs r \<and>
          (if snd (spec_apply_series E h q) then current r' = current r
           else current r' = b \<and> \<not> has_branch r' pq \<and>
                (\<forall>x. x \<noteq> pq \<longrightarrow> x \<noteq> current r \<longrightarrow> branches r' x = branches r x))"
  using assms
proof (induction q arbitrary: r h)
  case Nil
  then show ?case by simp
next
  case (Cons p q)
  from Cons.prems(1) have "\<exists>a. resolve_author E (Some h) p = Inr a" by simp
  then obtain a where au: "resolve_author E (Some h) p = Inr a" ..
  note step = apply_and_commit_resolved [OF au Cons.prems(2)]
  show ?case
  proof (cases "apply_patch_ok E (Some h) (path p)")
    case False
    with step show ?thesis
      by (simp add: set_branch_def delete_branch_def has_branch_def)
  next
    case True
    define r1 where "r1 = r\<lparr>calls := calls r @ [ApplyPatch (path p)],
                     branches := (branches r)(current r \<mapsto> patched E h p)\<rparr>"
    have h1: "head r1 = Some (patched E h p)" by (simp add: r1_def head_def)
    from Cons.prems(1) have q: "\<forall>h. \<forall>p\<in>set q. \<exists>a. resolve_author E h p = Inr a" by simp
    from Cons.IH [OF q h1] obtain r' where
      a: "apply_queue E b pq q r1 =
            (if snd (spec_apply_series E (patched E h p) q) then Completed else Broke, r')"
      and c: "calls r' = calls r1 @ fst (spec_apply_series E (patched E h p) q) @
            (if snd (spec_apply_series E (patched E h p) q) then [] else [SetBranch b, DeleteBranch pq])"
      and t: "tmpdirs r' = tmpdirs r1"
      and s: "if snd (spec_apply_series E (patched E h p) q) then current r' = current r1
           else current r' = b \<and> \<not> has_branch r' pq \<and>
                (\<forall>x. x \<noteq> pq \<longrightarrow> x \<noteq> current r1 \<longrightarrow> branches r' x = branches r1 x)"
      by blast
    have e: "apply_queue E b pq (p # q) r = apply_queue E b pq q r1"
      using step True by (simp add: r1_def)
    show ?thesis
      using True a c t s unfolding e
      by (cases "spec_apply_series E (patched E h p) q") (auto simp: r1_def)
  qed
qed


lemma try_commits_spec:
  assumes "\<forall>h. \<forall>p\<in>set q. \<exists>a. resolve_author E h p = Inr a"
  shows "\<exists>r'. try_commits E b pq q cs r = (snd (spec_time_machine E b pq q cs), r') \<and>
          calls r' = calls r @ fst (spec_time_machine E b pq q cs) \<and>
          (cs \<noteq> [] \<and> snd (spec_time_machine E b pq q cs) = Some (GbpError ''Couldn't apply patches'')
             \<longrightarrow> current r' = b \<and> \<not> has_branch r' pq)"
proof (induction cs arbitrary: r)
  case Nil
  show ?case by simp
next
  case (Cons c cs)
  show ?case
  proof (cases "create_branch_ok E pq c")
    case False
    then show ?thesis by (simp add: create_branch_def)
  next
    case True
    define r1 where "r1 = set_branch pq (r\<lparr>branches := (branches r)(pq \<mapsto> c), calls := calls r @ [CreateBranch pq c]\<rparr>)"
    have h1: "head r1 = Some c" by (simp add: r1_def set_branch_def head_def)
    have c1: "calls r1 = calls r @ [CreateBranch pq c, SetBranch pq]"
      by (simp add: r1_def set_branch_def)
    obtain attempts ok where sa: "spec_apply_series E c q = (attempts, ok)"
      by (cases "spec_apply_series E c q")
    from apply_queue_spec [OF assms h1, of b pq] sa obtain r2 where
      a: "apply_queue E b pq q r1 = (if ok then Completed else Broke, r2)"
      and c2: "calls r2 = calls r1 @ attempts @ (if ok then [] else [SetBranch b, DeleteBranch pq])"
      and s2: "if ok then current r2 = current r1
               else current r2 = b \<and> \<not> has_branch r2 pq \<and>
                (\<forall>x. x \<noteq> pq \<longrightarrow> x \<noteq> current r1 \<longrightarrow> branches r2 x = branches r1 x)"
      by auto
    show ?thesis
    proof (cases ok)
      case True
      with \<open>create_branch_ok E pq c\<close> a c1 c2 sa show ?thesis
        by (simp add: create_branch_def r1_def)
    next
      case False
      obtain later e where st: "spec_time_machine E b pq q cs = (later, e)"
        by (cases "spec_time_machine E b pq q cs")
      from Cons.IH [of r2] st obtain r3 where
        t: "try_commits E b pq q cs r2 = (e, r3)"
        and c3: "calls r3 = calls r2 @ later"
        and s3: "cs \<noteq> [] \<and> e = Some (GbpError ''Couldn't apply patches'')
             \<longrightarrow> current r3 = b \<and> \<not> has_branch r3 pq"
        by auto
      have e: "try_commits E b pq q (c # cs) r = (e, r3)"
        using \<open>create_branch_ok E pq c\<close> a False t by (simp add: create_branch_def r1_def)
      have f: "current r3 = b \<and> \<not> has_branch r3 pq" if "e = Some (GbpError ''Couldn't apply patches'')"
      proof (cases cs)
        case Nil
        with t have "r3 = r2" by simp
        with s2 False show ?thesis by simp
      next
        case (Cons c' cs')
        with s3 that show ?thesis by simp
      qed
      show ?thesis
        using \<open>create_branch_ok E pq c\<close> False sa st e c1 c2 c3 f by simp
    qed
  qed
qed

lemma get_commits_tip:
  assumes "current r = b" "branches r b = Some tip"
  shows "get_commits r t = take (nat t) (first_parent_walk tip)"
  using assms by (simp add: get_commits_def head_def)

text \<open>
  The import past its branch checks, started on the branch it is given: the candidates
  are the first \<open>tries\<close> commits of the first-parent walk from the tip, most recent
  first; the calls are the snapshot (with more than one candidate), the calls of the
  time machine, and the removal of the snapshot after a success.
\<close>

lemma import_time_machine:
  assumes "\<not> is_pq_branch b" "\<not> has_branch r (PQ_BRANCH_PREFIX @ b)"
    and "current r = b" "branches r b = Some tip"
    and "\<forall>f h. \<forall>p\<in>set (read_series_file E f). \<exists>a. resolve_author E h p = Inr a"
  shows "let cs = take (nat t) (first_parent_walk tip);
             snap = safe_patches E s r;
             q = read_series_file E (if 1 < length cs then fst (snd snap) else s);
             trace = fst (spec_time_machine E b (PQ_BRANCH_PREFIX @ b) q cs);
             err = snd (spec_time_machine E b (PQ_BRANCH_PREFIX @ b) q cs)
         in length cs \<le> nat t \<and>
            (\<exists>r'. import_quilt_patches E r b s t force = (err, r') \<and>
               calls r' = calls r
                 @ (if 1 < length cs then [CopyTree (os_path_dirname s) (os_path_join (fst snap) ''patches'')] else [])
                 @ trace
                 @ (if 1 < length cs \<and> err = None then [RmTree (fst snap)] else []) \<and>
               (cs \<noteq> [] \<and> err = Some (GbpError ''Couldn't apply patches'')
                  \<longrightarrow> current r' = b \<and> \<not> has_branch r' (PQ_BRANCH_PREFIX @ b)))"
proof -
  define cs where "cs = take (nat t) (first_parent_walk tip)"
  define snap where "snap = safe_patches E s r"
  define q where "q = read_series_file E (if 1 < length cs then fst (snd snap) else s)"
  define r3 where "r3 = (if 1 < length cs then snd (snd snap) else r)"
  define pq where "pq = PQ_BRANCH_PREFIX @ b"
  have g: "get_commits r t = cs"
    using get_commits_tip [OF assms(3,4)] by (simp add: cs_def)
  have au: "\<forall>h. \<forall>p\<in>set q. \<exists>a. resolve_author E h p = Inr a"
    using assms(5) by (simp add: q_def)
  from try_commits_spec [OF au, of b pq cs r3] obtain r4 where
    tc: "try_commits E b pq q cs r3 = (snd (spec_time_machine E b pq q cs), r4)"
    and c4: "calls r4 = calls r3 @ fst (spec_time_machine E b pq q cs)"
    and s4: "cs \<noteq> [] \<and> snd (spec_time_machine E b pq q cs) = Some (GbpError ''Couldn't apply patches'')
             \<longrightarrow> current r4 = b \<and> \<not> has_branch r4 pq"
    by blast
  have c3: "calls r3 = calls r
      @ (if 1 < length cs then [CopyTree (os_path_dirname s) (os_path_join (fst snap) ''patches'')] else [])"
    by (simp add: r3_def snap_def safe_patches_def Let_def)
  define err where "err = snd (spec_time_machine E b pq q cs)"
  define r5 where "r5 = (if 1 < length cs \<and> err = None then rmtree (fst snap) r4 else r4)"
  have i: "import_quilt_patches E r b s t force = (err, r5)"
    unfolding import_entered [OF assms(1,2)] g Let_def
    using tc
    by (cases "safe_patches E s r")
       (auto simp: r3_def q_def snap_def pq_def err_def r5_def split: option.splits)
  have c5: "calls r5 = calls r4 @ (if 1 < length cs \<and> err = None then [RmTree (fst snap)] else [])"
    by (simp add: r5_def rmtree_def)
  have s5: "cs \<noteq> [] \<and> err = Some (GbpError ''Couldn't apply patches'')
             \<longrightarrow> current r5 = b \<and> \<not> has_branch r5 pq"
    using s4 by (auto simp: r5_def err_def)
  have l: "length cs \<le> nat t" by (simp add: cs_def)
  show ?thesis
    unfolding Let_def cs_def [symmetric] snap_def [symmetric] q_def [symmetric] pq_def [symmetric]
      err_def [symmetric]
    using l i c3 c4 c5 s5 by simp
qed

text \<open>
  What becomes of the snapshot: none is made with at most one candidate; with more, it is
  removed when the import succeeds and left behind when the import raises.
\<close>

lemma import_snapshot_fate:
  assumes "\<not> is_pq_branch b" "\<not> has_branch r (PQ_BRANCH_PREFIX @ b)"
  shows "(length (get_commits r t) \<le> 1 \<longrightarrow>
            tmpdirs (snd (import_quilt_patches E r b s t force)) = tmpdirs r) \<and>
         (1 < length (get_commits r t) \<and> fst (import_quilt_patches E r b s t force) = None \<longrightarrow>
            tmpdirs (snd (import_quilt_patches E r b s t force)) =
              removeAll (fst (safe_patches E s r)) (tmpdirs r)) \<and>
         (1 < length (get_commits r t) \<and> fst (import_quilt_patches E r b s t force) \<noteq> None \<longrightarrow>
            tmpdirs (snd (import_quilt_patches E r b s t force)) =
              fst (safe_patches E s r) # tmpdirs r)"
proof -
  define cs where "cs = get_commits r t"
  define snap where "snap = safe_patches E s r"
  define q where "q = read_series_file E (if 1 < length cs then fst (snd snap) else s)"
  define r3 where "r3 = (if 1 < length cs then snd (snd snap) else r)"
  define pq where "pq = PQ_BRANCH_PREFIX @ b"
  obtain eo r4 where tc: "try_commits E b pq q cs r3 = (eo, r4)"
    by (cases "try_commits E b pq q cs r3")
  from try_commits_tmpdirs [of E b pq q cs r3] tc have t4: "tmpdirs r4 = tmpdirs r3" by simp
  have t3: "tmpdirs r3 = (if 1 < length cs then fst snap # tmpdirs r else tmpdirs r)"
    by (simp add: r3_def snap_def safe_patches_def Let_def)
  define r5 where "r5 = (if 1 < length cs \<and> eo = None then rmtree (fst snap) r4 else r4)"
  have i: "import_quilt_patches E r b s t force = (eo, r5)"
    unfolding import_entered [OF assms(1,2)] cs_def [symmetric] Let_def
    using tc
    by (cases "safe_patches E s r")
       (auto simp: r3_def q_def snap_def pq_def r5_def split: option.splits)
  show ?thesis
    unfolding i cs_def [symmetric] snap_def [symmetric]
    using t3 t4 by (auto simp: r5_def rmtree_def)
qed


lemma resolve_author_authored:
  "truthy (author p) \<Longrightarrow> truthy (email p) \<Longrightarrow>
   resolve_author E h p = Inr (author p, email p, date p)"
  by (simp add: resolve_author_def)

text \<open>
  C1 on the code: two candidate commits, one patch without author, a control file
  without maintainer. The \<open>IndexError\<close> of the maintainer lookup is not among the
  exceptions the loop catches: the import ends at the first candidate with that error,
  the patch-queue branch is left checked out, the second candidate is never tried, and
  the error that no commit took the patches is not raised. (When author resolution
  raises nothing the import is the time machine of the specification, by
  \<open>import_time_machine\<close>.)
\<close>

theorem import_author_lookup_escapes:
  "(let res = import_quilt_patches \<lparr>create_branch_ok = (\<lambda>b c. True), apply_patch_ok = (\<lambda>h p. True), control_file = (\<lambda>h. Some (''Source: gbp'' @ [NL])), read_series_file = (\<lambda>s. [\<lparr>path = ''debian/patches/a.diff'', author = None, email = None, date = None, subject = ''s'', long_desc = ''d'', topic = None\<rparr>]), mkdtemp_random = ''XXXXXX''\<rparr> \<lparr>branches = [''master'' \<mapsto> Commit (Root ''c0'') ''msg'' (None, None, None) ''p''], current = ''master'', tmpdirs = [], calls = []\<rparr> ''master'' SERIES_FILE 2 False
    in fst res = Some IndexError \<and>
       calls (snd res) =
         [CopyTree ''debian/patches'' ''.git/gbp-pqXXXXXX/patches'',
          CreateBranch ''patch-queue/master'' (Commit (Root ''c0'') ''msg'' (None, None, None) ''p''),
          SetBranch ''patch-queue/master''] \<and>
       current (snd res) = ''patch-queue/master'' \<and>
       has_branch (snd res) ''patch-queue/master'' \<and>
       tmpdirs (snd res) = [''.git/gbp-pqXXXXXX''])"
  by code_simp

text \<open>
  C2 on the code: two candidate commits and a patch that applies at neither. The error
  that no commit took the patches is raised before the snapshot is removed: the temporary
  directory is still there afterwards.
\<close>

theorem import_exhaustion_leaves_snapshot:
  "(let res = import_quilt_patches \<lparr>create_branch_ok = (\<lambda>b c. True), apply_patch_ok = (\<lambda>h p. False), control_file = (\<lambda>h. None), read_series_file = (\<lambda>s. [\<lparr>path = ''debian/patches/a.diff'', author = Some ''A'', email = Some ''a@b'', date = None, subject = ''s'', long_desc = ''d'', topic = None\<rparr>]), mkdtemp_random = ''XXXXXX''\<rparr> \<lparr>branches = [''master'' \<mapsto> Commit (Root ''c0'') ''msg'' (None, None, None) ''p''], current = ''master'', tmpdirs = [], calls = []\<rparr> ''master'' SERIES_FILE 2 False
    in fst res = Some (GbpError ''Couldn't apply patches'') \<and>
       tmpdirs (snd res) = [''.git/gbp-pqXXXXXX''] \<and>
       RmTree ''.git/gbp-pqXXXXXX'' \<notin> set (calls (snd res)) \<and>
       \<not> has_branch (snd res) ''patch-queue/master'')"
  by code_simp

text \<open>When the patch applies at the second commit, the snapshot is removed at the end.\<close>

lemma import_success_removes_snapshot_example:
  "(let res = import_quilt_patches \<lparr>create_branch_ok = (\<lambda>b c. True), apply_patch_ok = (\<lambda>h p. h = Some (Root ''c0'')), control_file = (\<lambda>h. None), read_series_file = (\<lambda>s. [\<lparr>path = ''debian/patches/a.diff'', author = Some ''A'', email = Some ''a@b'', date = None, subject = ''s'', long_desc = ''d'', topic = None\<rparr>]), mkdtemp_random = ''XXXXXX''\<rparr> \<lparr>branches = [''master'' \<mapsto> Commit (Root ''c0'') ''msg'' (None, None, None) ''p''], current = ''master'', tmpdirs = [], calls = []\<rparr> ''master'' SERIES_FILE 2 False
    in fst res = None \<and> tmpdirs (snd res) = [] \<and>
       last (calls (snd res)) = RmTree ''.git/gbp-pqXXXXXX'')"
  by code_simp

end
